theory Spec2Isabelle
  imports Complex_Main "HOL-Library.AList"
begin

section \<open>Values of the host language\<close>

text \<open>
  The program is JavaScript on top of Leaflet: \<open>syncGeojson\<close>, \<open>showHover\<close> and \<open>afterLayout\<close>,
  and \<open>render.js\<close>, of which the later of its two versions is followed (the one whose index
  entries carry the feature and whose marker has a tooltip).

  Numbers are IEEE doubles in the source; here a finite number is a real (no rounding), and
  \<open>NonFin\<close> stands for \<open>NaN\<close>, \<open>Infinity\<close> and \<open>-Infinity\<close>, the values on which \<open>isFinite\<close> is
  false.

  A plain object used as a dictionary is the list of its own properties in insertion order
  (\<open>Object.entries\<close>, \<open>Object.keys\<close>); \<open>obj[k] = v\<close> is \<open>AList.update\<close> (an existing key keeps
  its place, a new one goes last), \<open>delete obj[k]\<close> is \<open>AList.delete\<close>, \<open>obj[k]\<close> is \<open>map_of\<close>
  with \<open>None\<close> for \<open>undefined\<close>. Names are ordinary property names. Two things JavaScript
  does with particular names are not represented: keys that look like array indices are
  enumerated first (no statement below depends on the order of enumeration), and members
  inherited from \<open>Object.prototype\<close> answer \<open>in\<close> and \<open>obj[k]\<close>. For an overlay named like such
  a member (\<open>toString\<close>, say) \<open>syncGeojson\<close> still takes the branches it takes here; the
  name \<open>__proto__\<close>, which an assignment does not store as a property, is outside the model.

  Leaflet is the drawing surface: adding and removing a layer always succeed, \<open>L.geoJSON\<close>
  returns a drawable for every content, and the events Leaflet fires while \<open>syncGeojson\<close>
  runs are not followed into their handlers.
\<close>

datatype jsnum = Fin real | NonFin

fun isFinite :: "jsnum \<Rightarrow> bool" where
  "isFinite (Fin r) = True"
| "isFinite NonFin = False"

text \<open>The real a finite number stands for; it is only taken of finite numbers.\<close>

fun num :: "jsnum \<Rightarrow> real" where
  "num (Fin r) = r"
| "num NonFin = 0"

type_synonym latlng = "real \<times> real"

type_synonym point = "jsnum \<times> jsnum"

text \<open>A GeoJSON feature: its property map (\<open>null\<close> or missing is \<open>None\<close>) and its geometry.\<close>

datatype 'v feature = Feature (properties: "(string \<times> 'v) list option") (geometry: 'v)

text \<open>
  A sublayer of a drawable, as \<open>eachLayer\<close> hands it to the callback: \<open>getLatLng\<close> is \<open>None\<close>
  when the sublayer has no such method (a path or a nested group), \<open>feature\<close> is \<open>sub.feature\<close>.
\<close>

datatype 'v sublayer = Sublayer (getLatLng: "latlng option") (feature: "'v feature option")

text \<open>
  A drawable (the object \<open>L.geoJSON\<close> returns). \<open>lid\<close> is its identity (Leaflet stamps every
  layer with a number); two drawables are the same object iff their \<open>lid\<close> agree.
\<close>

datatype 'v layer = Layer (lid: nat) (sublayers: "'v sublayer list")

text \<open>
  What the program calls and does not define: \<open>JSON.stringify\<close> on overlay content,
  Leaflet's \<open>L.geoJSON\<close> (the sublayers it builds from the content; the style callbacks of
  \<open>syncGeojson\<close> only choose colours), and the conversions of a property value to a boolean
  (\<open>if (v)\<close>) and to a string (a template literal). The statements hold for every choice of
  the four.
\<close>

record ('g, 'v) host =
  JSON_stringify :: "'g \<Rightarrow> string"
  L_geoJSON :: "'g \<Rightarrow> 'v sublayer list"
  ToBoolean :: "'v \<Rightarrow> bool"
  ToString :: "'v \<Rightarrow> string"

text \<open>The inbound \<open>data\<close> object; a missing dictionary is \<open>None\<close>.\<close>

record 'g data =
  geojson_overlays :: "(string \<times> 'g) list option"
  geojson_hover_overlays :: "(string \<times> 'g) list option"
  show_hover :: bool

section \<open>The state of one map view\<close>

text \<open>An entry of the hover index: \<open>{x, y, latlng, feature}\<close>.\<close>

datatype 'v candidate =
  Candidate (cand_x: real) (cand_y: real) (cand_latlng: latlng) (cand_feature: "'v feature option")

text \<open>
  The content of the hover tooltip: \<open>featureText\<close> returns either the raw \<open>name\<close> property or a
  string.
\<close>

datatype 'v label = Raw 'v | Text string

text \<open>
  \<open>state\<close> after \<open>render\<close>. \<open>mapLayers\<close> are the identities of the overlay drawables on
  \<open>state.map\<close> (\<open>hasLayer\<close>), \<open>hoverOnMap\<close> says whether the hover marker is on it;
  \<open>controlOverlays\<close> are the entries of \<open>state.geojsonControl\<close>; \<open>projection\<close> is
  \<open>state.map.latLngToContainerPoint\<close> for the current viewport. \<open>dispatched\<close> lists the
  \<open>detail.layer_data\<close> of the \<open>hover_layer\<close> events dispatched so far, oldest first.
  Two fields observe the run and are not in the source: \<open>rebuilds\<close> counts the calls of
  \<open>_rebuildHoverIndex\<close>, \<open>nextId\<close> is the stamp of the next drawable to be constructed.
  \<open>hoverIndexBounds\<close> is written by the rebuild and read nowhere; it is left out.
\<close>

record 'v state =
  geojsonLayers :: "(string \<times> 'v layer) list"
  geojsonData :: "(string \<times> string) list"
  geojsonHoverable :: "(string \<times> bool) list"
  mapLayers :: "nat set"
  controlOverlays :: "(nat \<times> string) list"
  projection :: "latlng \<Rightarrow> point"
  hoverLatLng :: latlng
  hoverTooltip :: "'v label"
  hoverTooltipOpen :: bool
  hoverOnMap :: bool
  hoverIndex :: "(string \<times> 'v candidate list) list option"
  mmPending :: bool
  mmLast :: "latlng option"
  dispatched :: "'v feature option list"
  rebuilds :: nat
  nextId :: nat

text \<open>\<open>setupHover\<close>: the snapping distance and the grid size, both in pixels.\<close>

definition hoverThresholdPx :: real where
  "hoverThresholdPx = 25"

definition gridCell :: real where
  "gridCell = hoverThresholdPx"

text \<open>
  \<open>render\<close>: \<open>configureOverlays\<close> empties the overlay tables, \<open>setupHover\<close> creates the marker
  at \<open>[0, 0]\<close> with an empty tooltip, off the map, and leaves the index \<open>null\<close>.
\<close>

definition render :: "(latlng \<Rightarrow> point) \<Rightarrow> 'v state" where
  "render proj =
     \<lparr> geojsonLayers = [], geojsonData = [], geojsonHoverable = [],
       mapLayers = {}, controlOverlays = [], projection = proj,
       hoverLatLng = (0, 0), hoverTooltip = Text [], hoverTooltipOpen = False,
       hoverOnMap = False, hoverIndex = None,
       mmPending = False, mmLast = None, dispatched = [],
       rebuilds = 0, nextId = 0 \<rparr>"

section \<open>The hover index\<close>

text \<open>
  The decimal rendering of an integer, as \<open>cx + ':' + cy\<close> gives it (the source turns to
  exponent notation from \<open>1e21\<close> on, which a real cell index never is for a pixel on a
  screen). \<open>digit\<close> is only taken of a number below ten.
\<close>

definition digit :: "nat \<Rightarrow> char" where
  "digit n = ''0123456789'' ! n"

fun show_nat :: "nat \<Rightarrow> string" where
  "show_nat n =
     (if n < 10 then [digit n]
      else show_nat (n div 10) @ [digit (n mod 10)])"

declare show_nat.simps [simp del]

definition show_int :: "int \<Rightarrow> string" where
  "show_int i = (if i < 0 then CHR ''-'' # show_nat (nat (- i)) else show_nat (nat i))"

record cell =
  cx :: int
  cy :: int
  key :: string

text \<open>\<open>state._cellKeyFromPoint\<close>, on a point with finite coordinates.\<close>

definition cellKeyFromPoint :: "real \<times> real \<Rightarrow> cell" where
  "cellKeyFromPoint pt =
     (let i = \<lfloor>fst pt / gridCell\<rfloor>;
          j = \<lfloor>snd pt / gridCell\<rfloor>
      in \<lparr> cx = i, cy = j, key = show_int i @ '':'' @ show_int j \<rparr>)"

text \<open>
  The callback of \<open>eachLayer\<close> in \<open>_rebuildHoverIndex\<close>: a sublayer without \<open>getLatLng\<close> is
  passed over, a point projected to a non-finite pixel returns early, any other point is
  pushed on the array of its cell (created on first use).
\<close>

definition indexSublayer ::
  "(latlng \<Rightarrow> point) \<Rightarrow> 'v sublayer \<Rightarrow> (string \<times> 'v candidate list) list
     \<Rightarrow> (string \<times> 'v candidate list) list" where
  "indexSublayer proj sub idx =
     (case getLatLng sub of
        None \<Rightarrow> idx
      | Some ll \<Rightarrow>
          (let pt = proj ll
           in if \<not> isFinite (fst pt) \<or> \<not> isFinite (snd pt) then idx
              else
                let c = cellKeyFromPoint (num (fst pt), num (snd pt));
                    idx1 = (if key c \<in> fst ` set idx then idx else AList.update (key c) [] idx);
                    arr = (case map_of idx1 (key c) of Some a \<Rightarrow> a | None \<Rightarrow> [])
                in AList.update (key c)
                     (arr @ [Candidate (num (fst pt)) (num (snd pt)) ll (feature sub)]) idx1))"

text \<open>The body of the loop over \<open>Object.entries(state.geojsonLayers)\<close>.\<close>

definition indexLayer ::
  "'v state \<Rightarrow> string \<times> 'v layer \<Rightarrow> (string \<times> 'v candidate list) list
     \<Rightarrow> (string \<times> 'v candidate list) list" where
  "indexLayer s e idx =
     (case e of (nm, lyr) \<Rightarrow>
        if map_of (geojsonHoverable s) nm \<noteq> Some True then idx
        else if lid lyr \<notin> mapLayers s then idx
        else fold (indexSublayer (projection s)) (sublayers lyr) idx)"

definition rebuildHoverIndex :: "'v state \<Rightarrow> 'v state" where
  "rebuildHoverIndex s =
     s\<lparr> hoverIndex := Some (fold (indexLayer s) (geojsonLayers s) []),
        rebuilds := Suc (rebuilds s) \<rparr>"

text \<open>\<open>zoomend\<close> and \<open>moveend\<close>: the viewport has a new projection, and the index is rebuilt.\<close>

definition viewportChanged :: "(latlng \<Rightarrow> point) \<Rightarrow> 'v state \<Rightarrow> 'v state" where
  "viewportChanged proj s = rebuildHoverIndex (s\<lparr> projection := proj \<rparr>)"

section \<open>The pointer-move handler\<close>

text \<open>
  \<open>featureText\<close>: the \<open>name\<close> property when it is truthy, else every property rendered
  \<open>key: value\<close> and joined with a comma and a space, else (no feature, no properties) the
  empty string.
\<close>

fun join :: "string \<Rightarrow> string list \<Rightarrow> string" where
  "join sep [] = []"
| "join sep [t] = t"
| "join sep (t # u # us) = t @ sep @ join sep (u # us)"

definition featureText :: "('g, 'v) host \<Rightarrow> 'v feature option \<Rightarrow> 'v label" where
  "featureText h f =
     (case f of
        None \<Rightarrow> Text []
      | Some ft \<Rightarrow>
          (case properties ft of
             None \<Rightarrow> Text []
           | Some props \<Rightarrow>
               (case map_of props ''name'' of
                  Some n \<Rightarrow>
                    if ToBoolean h n then Raw n
                    else Text (join '', '' (map (\<lambda>(k, v). k @ '': '' @ ToString h v) props))
                | None \<Rightarrow> Text (join '', '' (map (\<lambda>(k, v). k @ '': '' @ ToString h v) props)))))"

text \<open>
  The search of the frame callback. \<open>best\<close> and \<open>bestDist\<close> are one optional pair: \<open>None\<close>
  is \<open>best = null, bestDist = Infinity\<close>, below which every finite distance lies.
\<close>

definition pixelDistance :: "real \<times> real \<Rightarrow> 'v candidate \<Rightarrow> real" where
  "pixelDistance p c =
     (let dxp = fst p - cand_x c;
          dyp = snd p - cand_y c
      in sqrt (dxp * dxp + dyp * dyp))"

definition closer ::
  "real \<times> real \<Rightarrow> 'v candidate \<Rightarrow> ('v candidate \<times> real) option \<Rightarrow> ('v candidate \<times> real) option" where
  "closer p c acc =
     (let d = pixelDistance p c
      in case acc of
           None \<Rightarrow> Some (c, d)
         | Some (best, bestDist) \<Rightarrow> if d < bestDist then Some (c, d) else acc)"

definition scanCell ::
  "(string \<times> 'v candidate list) list \<Rightarrow> real \<times> real \<Rightarrow> string
     \<Rightarrow> ('v candidate \<times> real) option \<Rightarrow> ('v candidate \<times> real) option" where
  "scanCell idx p k acc =
     (case map_of idx k of
        None \<Rightarrow> acc
      | Some arr \<Rightarrow> fold (closer p) arr acc)"

text \<open>The nine keys, in the order of the two loops (\<open>dy\<close> outside, \<open>dx\<close> inside).\<close>

definition neighborhood :: "cell \<Rightarrow> string list" where
  "neighborhood c =
     concat (map (\<lambda>dy. map (\<lambda>dx. show_int (cx c + dx) @ '':'' @ show_int (cy c + dy)) [-1, 0, 1])
       [-1, 0, 1])"

text \<open>
  Lines 543 to 566 of the callback: the nearest candidate of the nine cells, if it is within
  the threshold. When a coordinate of the pointer is not finite, a component of every key is
  \<open>NaN\<close> or \<open>Infinity\<close>, no cell of the index (built from finite points) has such a key, and
  \<open>best\<close> stays \<open>null\<close>.
\<close>

definition queryNearest ::
  "(string \<times> 'v candidate list) list \<Rightarrow> point \<Rightarrow> 'v candidate option" where
  "queryNearest idx p =
     (case p of
        (Fin px, Fin py) \<Rightarrow>
          (case fold (scanCell idx (px, py)) (neighborhood (cellKeyFromPoint (px, py))) None of
             Some (best, bestDist) \<Rightarrow> if bestDist \<le> hoverThresholdPx then Some best else None
           | None \<Rightarrow> None)
      | _ \<Rightarrow> None)"

datatype error = TypeError

text \<open>
  The callback given to \<open>requestAnimationFrame\<close>. It ends with an exception only when the
  index is \<open>null\<close>, which \<open>onMouseMove\<close> excludes before it schedules the callback.
\<close>

definition frameCallback :: "('g, 'v) host \<Rightarrow> 'v state \<Rightarrow> error option \<times> 'v state" where
  "frameCallback h s =
     (let s1 = s\<lparr> mmPending := False \<rparr>
      in case mmLast s1 of
           None \<Rightarrow> (None, s1)
         | Some e \<Rightarrow>
             (case hoverIndex s1 of
                None \<Rightarrow> (Some TypeError, s1)
              | Some idx \<Rightarrow>
                  (case queryNearest idx (projection s1 e) of
                     Some best \<Rightarrow>
                       (None,
                        s1\<lparr> hoverLatLng := cand_latlng best,
                            hoverTooltip := featureText h (cand_feature best),
                            hoverOnMap := True,
                            hoverTooltipOpen := True,
                            dispatched := dispatched s1 @ [cand_feature best] \<rparr>)
                   | None \<Rightarrow>
                       (None, s1\<lparr> hoverOnMap := False, hoverTooltipOpen := False \<rparr>))))"

text \<open>
  \<open>state.onMouseMove\<close>: remember the event; \<open>mmPending\<close> set means a frame callback is
  scheduled.
\<close>

definition onMouseMove :: "'g data \<Rightarrow> latlng \<Rightarrow> 'v state \<Rightarrow> 'v state" where
  "onMouseMove d ev s =
     (if \<not> show_hover d \<or> hoverIndex s = None then s
      else
        let s1 = s\<lparr> mmLast := Some ev \<rparr>
        in if mmPending s1 then s1 else s1\<lparr> mmPending := True \<rparr>)"

definition onMouseOut :: "'v state \<Rightarrow> 'v state" where
  "onMouseOut s = s\<lparr> hoverOnMap := False, hoverTooltipOpen := False \<rparr>"

definition showHover :: "'g data \<Rightarrow> 'v state \<Rightarrow> 'v state" where
  "showHover d s = (if \<not> show_hover d then s\<lparr> hoverOnMap := False \<rparr> else s)"

section \<open>Overlay reconciliation\<close>

text \<open>An entry of \<open>desired\<close>: \<open>{geojson, hoverable}\<close>.\<close>

record 'g entry =
  geojson :: 'g
  hoverable :: bool

text \<open>Lines 15 and 16: \<open>data.geojson_overlays || {}\<close> and \<open>data.geojson_hover_overlays || {}\<close>.\<close>

definition staticDict :: "'g data \<Rightarrow> (string \<times> 'g) list" where
  "staticDict d = (case geojson_overlays d of None \<Rightarrow> [] | Some o1 \<Rightarrow> o1)"

definition hoverDict :: "'g data \<Rightarrow> (string \<times> 'g) list" where
  "hoverDict d = (case geojson_hover_overlays d of None \<Rightarrow> [] | Some o2 \<Rightarrow> o2)"

text \<open>Lines 20 to 22: the static dictionary first, the hover dictionary over it.\<close>

definition desiredOf :: "'g data \<Rightarrow> (string \<times> 'g entry) list" where
  "desiredOf d =
     fold (\<lambda>(k, v). AList.update k \<lparr> geojson = v, hoverable = True \<rparr>) (hoverDict d)
       (fold (\<lambda>(k, v). AList.update k \<lparr> geojson = v, hoverable = False \<rparr>) (staticDict d) [])"

text \<open>
  \<open>removeLayer\<close> on the map and on the layer control, each in its own \<open>try\<close>: taking away what
  is not there changes nothing.
\<close>

definition detach :: "'v layer \<Rightarrow> 'v state \<Rightarrow> 'v state" where
  "detach lyr s =
     s\<lparr> mapLayers := mapLayers s - {lid lyr},
        controlOverlays := filter (\<lambda>(i, n). i \<noteq> lid lyr) (controlOverlays s) \<rparr>"

text \<open>Lines 27 to 42, the body of the removal loop.\<close>

definition removeAbsent :: "string set \<Rightarrow> string \<Rightarrow> 'v state \<Rightarrow> 'v state" where
  "removeAbsent desiredNames name s =
     (if name \<in> desiredNames then s
      else
        let s1 = (case map_of (geojsonLayers s) name of Some lyr \<Rightarrow> detach lyr s | None \<Rightarrow> s)
        in s1\<lparr> geojsonLayers := AList.delete name (geojsonLayers s1),
               geojsonData := AList.delete name (geojsonData s1),
               geojsonHoverable := AList.delete name (geojsonHoverable s1) \<rparr>)"

text \<open>Lines 52 to 54.\<close>

definition needsCreate :: "'v state \<Rightarrow> string \<Rightarrow> string \<Rightarrow> bool \<Rightarrow> bool" where
  "needsCreate s name serialized hov \<longleftrightarrow>
     name \<notin> fst ` set (geojsonLayers s)
     \<or> map_of (geojsonData s) name \<noteq> Some serialized
     \<or> map_of (geojsonHoverable s) name \<noteq> Some hov"

text \<open>
  Lines 46 to 154, the body of the upsert loop, on the state and the local
  \<open>changedVisiblePoints\<close>. The content of an entry is never \<open>undefined\<close>, so \<open>gj\<close> is
  \<open>entry.geojson\<close>.
\<close>

definition upsert ::
  "('g, 'v) host \<Rightarrow> string \<times> 'g entry \<Rightarrow> 'v state \<times> bool \<Rightarrow> 'v state \<times> bool" where
  "upsert h ne sc =
     (case ne of (name, entry) \<Rightarrow>
      case sc of (s, changedVisiblePoints) \<Rightarrow>
        let gj = geojson entry;
            hov = hoverable entry;
            serialized = JSON_stringify h gj
        in if \<not> needsCreate s name serialized hov then (s, changedVisiblePoints)
           else
             let s1 = (case map_of (geojsonLayers s) name of Some old \<Rightarrow> detach old s | None \<Rightarrow> s);
                 layer = Layer (nextId s1) (L_geoJSON h gj)
             in (s1\<lparr> nextId := Suc (nextId s1),
                     mapLayers := insert (lid layer) (mapLayers s1),
                     geojsonLayers := AList.update name layer (geojsonLayers s1),
                     geojsonData := AList.update name serialized (geojsonData s1),
                     geojsonHoverable := AList.update name hov (geojsonHoverable s1),
                     controlOverlays := controlOverlays s1 @ [(lid layer, name)] \<rparr>,
                 True))"

definition removalPass :: "string set \<Rightarrow> 'v state \<Rightarrow> 'v state" where
  "removalPass desiredNames s = fold (removeAbsent desiredNames) (map fst (geojsonLayers s)) s"

definition upsertPass ::
  "('g, 'v) host \<Rightarrow> (string \<times> 'g entry) list \<Rightarrow> 'v state \<Rightarrow> 'v state \<times> bool" where
  "upsertPass h desired s = fold (upsert h) desired (s, False)"

text \<open>
  \<open>syncGeojson\<close>. The tables exist (\<open>render\<close> made them), so the guard of lines 7 to 12 is
  false. The call of line 157 is not under any condition.
\<close>

definition syncGeojson :: "('g, 'v) host \<Rightarrow> 'g data \<Rightarrow> 'v state \<Rightarrow> 'v state" where
  "syncGeojson h d s =
     (let desired = desiredOf d;
          desiredNames = set (map fst desired);
          s1 = removalPass desiredNames s;
          (s2, changedVisiblePoints) = upsertPass h desired s1
      in rebuildHoverIndex s2)"

text \<open>
  The user ticks or unticks an overlay in the layer control: the drawable goes on or off
  the map, and the handler of \<open>overlayadd\<close> and \<open>overlayremove\<close> (\<open>configureOverlays\<close>) runs
  \<open>sync_geojson\<close> on the unchanged data.
\<close>

definition overlayToggled :: "('g, 'v) host \<Rightarrow> 'g data \<Rightarrow> nat \<Rightarrow> 'v state \<Rightarrow> 'v state" where
  "overlayToggled h d i s =
     syncGeojson h d
       (s\<lparr> mapLayers := (if i \<in> mapLayers s then mapLayers s - {i} else insert i (mapLayers s)) \<rparr>)"

text \<open>\<open>afterLayout\<close>: a pass, then \<open>show_hover\<close> (resizing the map draws, and changes nothing here).\<close>

definition afterLayout :: "('g, 'v) host \<Rightarrow> 'g data \<Rightarrow> 'v state \<Rightarrow> 'v state" where
  "afterLayout h d s = showHover d (syncGeojson h d s)"

text \<open>The states a map view can be in: \<open>render\<close>, then any of the handlers, in any order.\<close>

inductive reachable :: "('g, 'v) host \<Rightarrow> 'v state \<Rightarrow> bool" for h :: "('g, 'v) host" where
  reach_render: "reachable h (render proj)"
| reach_sync: "reachable h s \<Longrightarrow> reachable h (syncGeojson h (d :: 'g data) s)"
| reach_toggle: "reachable h s \<Longrightarrow> i \<in> fst ` set (controlOverlays s) \<Longrightarrow> reachable h (overlayToggled h (d :: 'g data) i s)"
| reach_viewport: "reachable h s \<Longrightarrow> reachable h (viewportChanged proj s)"
| reach_move: "reachable h s \<Longrightarrow> reachable h (onMouseMove (d :: 'g data) ev s)"
| reach_frame: "reachable h s \<Longrightarrow> mmPending s \<Longrightarrow> reachable h (snd (frameCallback h s))"
| reach_out: "reachable h s \<Longrightarrow> reachable h (onMouseOut s)"
| reach_show: "reachable h s \<Longrightarrow> reachable h (showHover (d :: 'g data) s)"

section \<open>Notions used in the statements\<close>

text \<open>All the candidates an index holds, cell after cell.\<close>

definition candidates :: "(string \<times> 'v candidate list) list \<Rightarrow> 'v candidate list" where
  "candidates idx = concat (map snd idx)"

text \<open>The array \<open>get\<close> returns for a key, empty when there is none.\<close>

definition bucket :: "(string \<times> 'v candidate list) list \<Rightarrow> string \<Rightarrow> 'v candidate list" where
  "bucket idx k = (case map_of idx k of None \<Rightarrow> [] | Some arr \<Rightarrow> arr)"

text \<open>
  The running pair \<open>best, bestDist\<close> is a nearest one of the candidates seen so far, with its
  distance.
\<close>

definition nearest_of ::
  "real \<times> real \<Rightarrow> ('v candidate \<times> real) option \<Rightarrow> 'v candidate set \<Rightarrow> bool" where
  "nearest_of p acc S \<longleftrightarrow>
     (case acc of
        None \<Rightarrow> S = {}
      | Some (b, d) \<Rightarrow> b \<in> S \<and> d = pixelDistance p b \<and> (\<forall>c\<in>S. d \<le> pixelDistance p c))"

text \<open>Every key occurs once, and every candidate sits under the key of its own cell.\<close>

definition index_wf :: "(string \<times> 'v candidate list) list \<Rightarrow> bool" where
  "index_wf idx \<longleftrightarrow>
     distinct (map fst idx)
     \<and> (\<forall>k. \<forall>c\<in>set (bucket idx k). key (cellKeyFromPoint (cand_x c, cand_y c)) = k)"

text \<open>
  What one sublayer contributes to the index under a projection: nothing when it has no
  position or the projected pixel is not finite, else the candidate at that pixel.
\<close>

definition candidateOf :: "(latlng \<Rightarrow> point) \<Rightarrow> 'v sublayer \<Rightarrow> 'v candidate option" where
  "candidateOf proj sub =
     (case getLatLng sub of
        None \<Rightarrow> None
      | Some ll \<Rightarrow>
          (case proj ll of
             (Fin px, Fin py) \<Rightarrow> Some (Candidate px py ll (feature sub))
           | _ \<Rightarrow> None))"

text \<open>What one overlay contributes: nothing unless it is hover-eligible and on the map.\<close>

definition layerCandidates :: "'v state \<Rightarrow> string \<times> 'v layer \<Rightarrow> 'v candidate set" where
  "layerCandidates s e =
     (case e of (nm, lyr) \<Rightarrow>
        if map_of (geojsonHoverable s) nm = Some True \<and> lid lyr \<in> mapLayers s
        then {c. \<exists>sub\<in>set (sublayers lyr). candidateOf (projection s) sub = Some c}
        else {})"

text \<open>
  What holds of the three tables between the handlers: they have the same names, and every
  stored drawable was constructed before the next one to come.
\<close>

definition tables_inv :: "'v state \<Rightarrow> bool" where
  "tables_inv s \<longleftrightarrow>
     fst ` set (geojsonData s) = fst ` set (geojsonLayers s)
     \<and> fst ` set (geojsonHoverable s) = fst ` set (geojsonLayers s)
     \<and> (\<forall>e\<in>set (geojsonLayers s). lid (snd e) < nextId s)"

text \<open>A scheduled frame callback has an event to read and an index to search.\<close>

definition pending_inv :: "'v state \<Rightarrow> bool" where
  "pending_inv s \<longleftrightarrow> (mmPending s \<longrightarrow> mmLast s \<noteq> None \<and> hoverIndex s \<noteq> None)"

section \<open>A scenario\<close>

text \<open>
  A small map view on which the statements are tried. The content of an overlay is a list
  of features, a point at integer coordinates or (\<open>None\<close>) a line; the drawable has a
  marker for a point and a path, without position, for a line. Property values are
  strings: the empty one is falsy, and each converts to itself. The projection scales by
  100 and has no finite row for a latitude of 90 degrees or more.
\<close>

definition scenario_feature :: "string feature" where
  "scenario_feature = Feature (Some [(''name'', ''pt''), (''kind'', ''well'')]) ''Point''"

definition scenario_host :: "((int \<times> int) option list, string) host" where
  "scenario_host =
     \<lparr> JSON_stringify =
         (\<lambda>g. concat (map (\<lambda>f. case f of
                                    None \<Rightarrow> ''L''
                                  | Some (a, b) \<Rightarrow> ''['' @ show_int a @ '','' @ show_int b @ '']'') g)),
       L_geoJSON =
         map (\<lambda>f. case f of
                     None \<Rightarrow> Sublayer None (Some (Feature None ''LineString''))
                   | Some (a, b) \<Rightarrow>
                       Sublayer (Some (of_int a, of_int b)) (Some scenario_feature)),
       ToBoolean = (\<lambda>v. v \<noteq> []),
       ToString = (\<lambda>v. v) \<rparr>"

definition scenario_proj :: "latlng \<Rightarrow> point" where
  "scenario_proj ll =
     (case ll of (lat, lng) \<Rightarrow>
        (Fin (100 * lng), if \<bar>lat\<bar> < 90 then Fin (100 * lat) else NonFin))"

text \<open>
  Overlay \<open>A\<close> is hover-eligible: two points, a line between them and a point at the pole.
  Overlay \<open>B\<close> is static. Overlay \<open>C\<close> is in both groups.
\<close>

definition scenario_data :: "(int \<times> int) option list data" where
  "scenario_data =
     \<lparr> geojson_overlays = Some [(''B'', [Some (5, 5)]), (''C'', [Some (7, 7)])],
       geojson_hover_overlays =
         Some [(''A'', [Some (0, 0), None, Some (90, 0), Some (0, 1)]), (''C'', [None])],
       show_hover = True \<rparr>"

text \<open>The next snapshot: only \<open>A\<close> is left, unchanged.\<close>

definition scenario_data2 :: "(int \<times> int) option list data" where
  "scenario_data2 =
     \<lparr> geojson_overlays = None,
       geojson_hover_overlays = Some [(''A'', [Some (0, 0), None, Some (90, 0), Some (0, 1)])],
       show_hover = True \<rparr>"

text \<open>The view after \<open>render\<close> and one reconciliation pass.\<close>

definition scenario_state :: "string state" where
  "scenario_state = syncGeojson scenario_host scenario_data (render scenario_proj)"

text \<open>The pointer moves next to the first point of \<open>A\<close>, and far from every point.\<close>

definition scenario_near :: "string state" where
  "scenario_near = onMouseMove scenario_data (3 / 100, 1 / 25) scenario_state"

definition scenario_far :: "string state" where
  "scenario_far = onMouseMove scenario_data (10, 10) scenario_state"

section \<open>Properties\<close>

subsection \<open>The grid\<close>

lemma pixelDistance_eq:
  "pixelDistance p c = sqrt ((fst p - cand_x c)\<^sup>2 + (snd p - cand_y c)\<^sup>2)"
  by (simp add: pixelDistance_def Let_def power2_eq_square)

lemma pixelDistance_ge_dx: "\<bar>fst p - cand_x c\<bar> \<le> pixelDistance p c"
  unfolding pixelDistance_eq by (rule real_sqrt_ge_abs1)

lemma pixelDistance_ge_dy: "\<bar>snd p - cand_y c\<bar> \<le> pixelDistance p c"
  unfolding pixelDistance_eq by (rule real_sqrt_ge_abs2)

lemma pixelDistance_le_iff:
  assumes "0 \<le> t"
  shows "pixelDistance p c \<le> t \<longleftrightarrow> (fst p - cand_x c)\<^sup>2 + (snd p - cand_y c)\<^sup>2 \<le> t\<^sup>2"
  unfolding pixelDistance_eq using assms by (blast intro: real_le_lsqrt dest: sqrt_le_D)

lemma neighborhood_mem:
  assumes "\<bar>i - cx c\<bar> \<le> 1" and "\<bar>j - cy c\<bar> \<le> 1"
  shows "show_int i @ '':'' @ show_int j \<in> set (neighborhood c)"
proof -
  from assms(1) obtain dx where dx: "dx \<in> {-1, 0, 1}" "i = cx c + dx" 
    by (cases "i = cx c - 1"; cases "i = cx c"; cases "i = cx c + 1") auto
  from assms(2) obtain dy where dy: "dy \<in> {-1, 0, 1}" "j = cy c + dy"
    by (cases "j = cy c - 1"; cases "j = cy c"; cases "j = cy c + 1") auto
  have "show_int (cx c + dx) @ '':'' @ show_int (cy c + dy) \<in> set (neighborhood c)"
    using dx(1) dy(1) unfolding neighborhood_def by auto
  then show ?thesis by (simp only: dx(2) dy(2))
qed

lemma floor_near:
  fixes a b g :: real
  assumes "0 < g" and "\<bar>a - b\<bar> \<le> g"
  shows "\<bar>\<lfloor>a / g\<rfloor> - \<lfloor>b / g\<rfloor>\<bar> \<le> 1"
proof -
  have ab: "a / g \<le> b / g + 1" and ba: "b / g \<le> a / g + 1"
    using assms by (simp_all add: field_simps)
  have "\<lfloor>a / g\<rfloor> \<le> \<lfloor>b / g + 1\<rfloor>" using ab by (rule floor_mono)
  moreover have "\<lfloor>b / g\<rfloor> \<le> \<lfloor>a / g + 1\<rfloor>" using ba by (rule floor_mono)
  ultimately show ?thesis by simp
qed

lemma gridCell_pos: "0 < gridCell"
  by (simp add: gridCell_def hoverThresholdPx_def)

lemma key_cellKeyFromPoint:
  "key (cellKeyFromPoint q) = show_int (cx (cellKeyFromPoint q)) @ '':'' @ show_int (cy (cellKeyFromPoint q))"
  by (simp add: cellKeyFromPoint_def Let_def)

lemma near_cells:
  assumes "pixelDistance p c \<le> hoverThresholdPx"
  shows "\<bar>cx (cellKeyFromPoint (cand_x c, cand_y c)) - cx (cellKeyFromPoint p)\<bar> \<le> 1"
    and "\<bar>cy (cellKeyFromPoint (cand_x c, cand_y c)) - cy (cellKeyFromPoint p)\<bar> \<le> 1"
proof -
  have dx: "\<bar>cand_x c - fst p\<bar> \<le> gridCell"
    using assms pixelDistance_ge_dx [of p c] by (simp add: gridCell_def)
  have dy: "\<bar>cand_y c - snd p\<bar> \<le> gridCell"
    using assms pixelDistance_ge_dy [of p c] by (simp add: gridCell_def)
  show "\<bar>cx (cellKeyFromPoint (cand_x c, cand_y c)) - cx (cellKeyFromPoint p)\<bar> \<le> 1"
    using floor_near [OF gridCell_pos dx] by (simp add: cellKeyFromPoint_def Let_def)
  show "\<bar>cy (cellKeyFromPoint (cand_x c, cand_y c)) - cy (cellKeyFromPoint p)\<bar> \<le> 1"
    using floor_near [OF gridCell_pos dy] by (simp add: cellKeyFromPoint_def Let_def)
qed

lemma near_key:
  assumes "pixelDistance p c \<le> hoverThresholdPx"
  shows "key (cellKeyFromPoint (cand_x c, cand_y c)) \<in> set (neighborhood (cellKeyFromPoint p))"
  unfolding key_cellKeyFromPoint [of "(cand_x c, cand_y c)"]
  by (rule neighborhood_mem) (rule near_cells [OF assms])+

text \<open>
  Claim C3. The grid cell size is the hover threshold (\<open>setupHover\<close>), and for every query
  point \<open>p\<close> and every candidate \<open>c\<close> at pixel distance at most the threshold from \<open>p\<close>, the
  cell of \<open>c\<close> is at most one column and one row away from the cell of \<open>p\<close>, so that its key
  is one of the nine keys the search of the frame callback looks up.
\<close>

theorem neighborhood_sufficient:
  assumes "pixelDistance p c \<le> hoverThresholdPx"
  shows "gridCell = hoverThresholdPx
     \<and> \<bar>cx (cellKeyFromPoint (cand_x c, cand_y c)) - cx (cellKeyFromPoint p)\<bar> \<le> 1
     \<and> \<bar>cy (cellKeyFromPoint (cand_x c, cand_y c)) - cy (cellKeyFromPoint p)\<bar> \<le> 1
     \<and> key (cellKeyFromPoint (cand_x c, cand_y c)) \<in> set (neighborhood (cellKeyFromPoint p))"
  using near_cells [OF assms] near_key [OF assms] by (simp add: gridCell_def)

lemmas cell_eval =
  cellKeyFromPoint_def gridCell_def hoverThresholdPx_def show_int_def show_nat.simps digit_def
  neighborhood_def Let_def

text \<open>
  A pointer at pixel (30, 30) and a candidate at (10, 30), 20 pixels away: the candidate is
  in cell \<open>0:1\<close>, the pointer in cell \<open>1:1\<close>, and \<open>0:1\<close> is among the nine keys.
\<close>

theorem neighborhood_sufficient_witness:
  "pixelDistance (30, 30) (Candidate 10 30 (0, 0) None :: nat candidate) \<le> hoverThresholdPx
   \<and> key (cellKeyFromPoint (10, 30)) = ''0:1''
   \<and> key (cellKeyFromPoint (30, 30)) = ''1:1''
   \<and> ''0:1'' \<in> set (neighborhood (cellKeyFromPoint (30, 30)))"
proof -
  have near: "pixelDistance (30, 30) (Candidate 10 30 (0, 0) None :: nat candidate) \<le> hoverThresholdPx"
    by (simp add: pixelDistance_le_iff hoverThresholdPx_def)
  have k: "key (cellKeyFromPoint (10, 30)) = ''0:1''" "key (cellKeyFromPoint (30, 30)) = ''1:1''"
    by (simp_all add: cell_eval)
  from neighborhood_sufficient [OF near] k near show ?thesis by simp
qed

subsection \<open>The search of the nine cells\<close>

lemma nearest_of_closer:
  assumes "nearest_of p acc S"
  shows "nearest_of p (closer p c acc) (insert c S)"
proof (cases acc)
  case None
  with assms show ?thesis by (simp add: nearest_of_def closer_def Let_def)
next
  case (Some bd)
  obtain b d where bd: "bd = (b, d)" by (cases bd)
  from assms Some bd have b: "b \<in> S" "d = pixelDistance p b" "\<forall>x\<in>S. d \<le> pixelDistance p x"
    by (auto simp: nearest_of_def)
  show ?thesis
  proof (cases "pixelDistance p c < d")
    case True
    then have "\<forall>x\<in>S. pixelDistance p c \<le> pixelDistance p x"
      using b(3) by fastforce
    with True Some bd show ?thesis by (simp add: nearest_of_def closer_def Let_def)
  next
    case False
    with Some bd b show ?thesis by (simp add: nearest_of_def closer_def Let_def)
  qed
qed

lemma nearest_of_fold_closer:
  "nearest_of p acc S \<Longrightarrow> nearest_of p (fold (closer p) cs acc) (S \<union> set cs)"
proof (induction cs arbitrary: acc S)
  case Nil
  then show ?case by simp
next
  case (Cons c cs)
  from Cons.IH [OF nearest_of_closer [OF Cons.prems, of c]]
  show ?case by simp
qed

lemma nearest_of_scanCell:
  "nearest_of p acc S \<Longrightarrow> nearest_of p (scanCell idx p k acc) (S \<union> set (bucket idx k))"
  by (cases "map_of idx k") (simp_all add: scanCell_def bucket_def nearest_of_fold_closer)

lemma nearest_of_fold_scanCell:
  "nearest_of p acc S \<Longrightarrow>
     nearest_of p (fold (scanCell idx p) ks acc) (S \<union> (\<Union>k\<in>set ks. set (bucket idx k)))"
proof (induction ks arbitrary: acc S)
  case Nil
  then show ?case by simp
next
  case (Cons k ks)
  from Cons.IH [OF nearest_of_scanCell [OF Cons.prems, of idx k]]
  show ?case by (simp add: Un_assoc)
qed

lemma candidates_iff:
  assumes "distinct (map fst idx)"
  shows "c \<in> set (candidates idx) \<longleftrightarrow> (\<exists>k. c \<in> set (bucket idx k))"
proof
  assume "c \<in> set (candidates idx)"
  then obtain k arr where "(k, arr) \<in> set idx" "c \<in> set arr"
    by (auto simp: candidates_def)
  with assms have "map_of idx k = Some arr" "c \<in> set arr" by simp_all
  then have "c \<in> set (bucket idx k)" by (simp add: bucket_def)
  then show "\<exists>k. c \<in> set (bucket idx k)" ..
next
  assume "\<exists>k. c \<in> set (bucket idx k)"
  then obtain k where k: "c \<in> set (bucket idx k)" ..
  then obtain arr where "map_of idx k = Some arr" "c \<in> set arr"
    by (cases "map_of idx k") (simp_all add: bucket_def)
  then have "(k, arr) \<in> set idx" "c \<in> set arr"
    by (simp_all add: map_of_SomeD)
  then show "c \<in> set (candidates idx)"
    unfolding candidates_def by force
qed

lemma bucket_key:
  "index_wf idx \<Longrightarrow> c \<in> set (bucket idx k) \<Longrightarrow> key (cellKeyFromPoint (cand_x c, cand_y c)) = k"
  by (simp add: index_wf_def)

subsection \<open>The rebuild\<close>

lemma bucket_update:
  "bucket (AList.update k v idx) k' = (if k' = k then v else bucket idx k')"
  by (simp add: bucket_def AList.update_conv')

lemma indexSublayer_push:
  "indexSublayer proj sub idx =
     (case candidateOf proj sub of
        None \<Rightarrow> idx
      | Some c \<Rightarrow>
          AList.update (key (cellKeyFromPoint (cand_x c, cand_y c)))
            (bucket idx (key (cellKeyFromPoint (cand_x c, cand_y c))) @ [c]) idx)"
proof (cases "getLatLng sub")
  case None
  then show ?thesis by (simp add: indexSublayer_def candidateOf_def)
next
  case (Some ll)
  obtain a b where ab: "proj ll = (a, b)" by (cases "proj ll")
  show ?thesis
  proof (cases a)
    case NonFin
    with Some ab show ?thesis by (simp add: indexSublayer_def candidateOf_def)
  next
    case (Fin px)
    note a = this
    show ?thesis
    proof (cases b)
      case NonFin
      with Some ab a show ?thesis by (simp add: indexSublayer_def candidateOf_def)
    next
      case (Fin py)
      have "map_of idx k = None" if "k \<notin> fst ` set idx" for k
        using that by (simp add: map_of_eq_None_iff)
      with Some ab a Fin show ?thesis
        by (simp add: indexSublayer_def candidateOf_def Let_def bucket_def AList.update_conv'
              split: option.splits)
    qed
  qed
qed

lemma distinct_indexSublayer:
  "distinct (map fst idx) \<Longrightarrow> distinct (map fst (indexSublayer proj sub idx))"
  by (simp add: indexSublayer_push AList.distinct_update split: option.splits)

lemma bucket_indexSublayer:
  "set (bucket (indexSublayer proj sub idx) k) =
     set (bucket idx k) \<union> {c. candidateOf proj sub = Some c \<and> key (cellKeyFromPoint (cand_x c, cand_y c)) = k}"
  by (auto simp: indexSublayer_push bucket_update split: option.splits)

lemma index_wf_indexSublayer:
  "index_wf idx \<Longrightarrow> index_wf (indexSublayer proj sub idx)"
  unfolding index_wf_def
  by (auto simp: bucket_indexSublayer distinct_indexSublayer)

lemma candidates_indexSublayer:
  assumes "distinct (map fst idx)"
  shows "set (candidates (indexSublayer proj sub idx)) = set (candidates idx) \<union> set_option (candidateOf proj sub)"
  using assms
  by (auto simp: candidates_iff distinct_indexSublayer bucket_indexSublayer)

lemma fold_indexSublayer:
  assumes "index_wf idx"
  shows "index_wf (fold (indexSublayer proj) subs idx)
     \<and> set (candidates (fold (indexSublayer proj) subs idx)) =
         set (candidates idx) \<union> (\<Union>sub\<in>set subs. set_option (candidateOf proj sub))"
  using assms
proof (induction subs arbitrary: idx)
  case Nil
  then show ?case by simp
next
  case (Cons sub subs)
  have wf: "index_wf (indexSublayer proj sub idx)"
    using Cons.prems by (rule index_wf_indexSublayer)
  have d: "distinct (map fst idx)"
    using Cons.prems by (simp add: index_wf_def)
  from Cons.IH [OF wf] candidates_indexSublayer [OF d, of proj sub]
  show ?case by (simp add: Un_assoc)
qed

lemma indexLayer_eq:
  "indexLayer s (nm, lyr) idx =
     (if map_of (geojsonHoverable s) nm = Some True \<and> lid lyr \<in> mapLayers s
      then fold (indexSublayer (projection s)) (sublayers lyr) idx else idx)"
  by (simp add: indexLayer_def)

lemma candidateOf_Some_iff:
  "candidateOf proj sub = Some c \<longleftrightarrow>
     (\<exists>ll px py. getLatLng sub = Some ll \<and> proj ll = (Fin px, Fin py)
        \<and> c = Candidate px py ll (feature sub))"
  by (auto simp: candidateOf_def split: option.splits prod.splits jsnum.splits)

lemma indexLayer_step:
  assumes "index_wf idx"
  shows "index_wf (indexLayer s e idx)"
    and "set (candidates (indexLayer s e idx)) = set (candidates idx) \<union> layerCandidates s e"
proof -
  obtain nm lyr where e: "e = (nm, lyr)" by (cases e)
  have sub: "{c. \<exists>sub\<in>set (sublayers lyr). candidateOf (projection s) sub = Some c} =
      (\<Union>sub\<in>set (sublayers lyr). set_option (candidateOf (projection s) sub))"
    by auto
  show "index_wf (indexLayer s e idx)"
    using assms fold_indexSublayer [OF assms, of "projection s" "sublayers lyr"]
    by (simp add: e indexLayer_eq)
  show "set (candidates (indexLayer s e idx)) = set (candidates idx) \<union> layerCandidates s e"
    using fold_indexSublayer [OF assms, of "projection s" "sublayers lyr"]
    by (simp add: e indexLayer_eq layerCandidates_def sub)
qed

lemma fold_indexLayer:
  assumes "index_wf idx"
  shows "index_wf (fold (indexLayer s) es idx)
     \<and> set (candidates (fold (indexLayer s) es idx)) =
         set (candidates idx) \<union> (\<Union>e\<in>set es. layerCandidates s e)"
  using assms
proof (induction es arbitrary: idx)
  case Nil
  then show ?case by simp
next
  case (Cons e es)
  from Cons.IH [OF indexLayer_step(1) [OF Cons.prems, of s e]]
    indexLayer_step(2) [OF Cons.prems, of s e]
  show ?case by (simp add: Un_assoc)
qed

lemma layerCandidates_iff:
  "c \<in> layerCandidates s (nm, lyr) \<longleftrightarrow>
     map_of (geojsonHoverable s) nm = Some True
     \<and> lid lyr \<in> mapLayers s
     \<and> (\<exists>sub ll px py.
          sub \<in> set (sublayers lyr)
          \<and> getLatLng sub = Some ll
          \<and> projection s ll = (Fin px, Fin py)
          \<and> c = Candidate px py ll (feature sub))"
  by (cases "map_of (geojsonHoverable s) nm = Some True \<and> lid lyr \<in> mapLayers s")
    (auto simp: layerCandidates_def candidateOf_Some_iff)

lemma index_wf_Nil: "index_wf []"
  by (simp add: index_wf_def bucket_def)

lemma candidates_Nil: "candidates [] = []"
  by (simp add: candidates_def)

lemma hoverIndex_rebuild:
  "hoverIndex (rebuildHoverIndex s) = Some (fold (indexLayer s) (geojsonLayers s) [])"
  by (simp add: rebuildHoverIndex_def)

lemma index_wf_rebuild:
  "hoverIndex (rebuildHoverIndex s) = Some idx \<Longrightarrow> index_wf idx"
  using fold_indexLayer [OF index_wf_Nil, of s "geojsonLayers s"]
  by (simp add: hoverIndex_rebuild)

text \<open>
  Claim C7. A rebuild always ends with an index, and a candidate is in that index exactly
  when it comes from a sublayer with a position (\<open>getLatLng\<close>), projected to a pixel with
  both coordinates finite, of an overlay that is stored as hover-eligible and is on the map.
  So a point projected to a non-finite pixel and a sublayer without a position are passed
  over, the points after them are still indexed, and nothing of an overlay that is not
  hover-eligible or not on the map is indexed.
\<close>

theorem rebuild_indexes_exactly:
  "\<exists>idx. hoverIndex (rebuildHoverIndex s) = Some idx \<and>
     (\<forall>c. c \<in> set (candidates idx) \<longleftrightarrow>
        (\<exists>nm lyr.
           (nm, lyr) \<in> set (geojsonLayers s)
           \<and> map_of (geojsonHoverable s) nm = Some True
           \<and> lid lyr \<in> mapLayers s
           \<and> (\<exists>sub ll px py.
                sub \<in> set (sublayers lyr)
                \<and> getLatLng sub = Some ll
                \<and> projection s ll = (Fin px, Fin py)
                \<and> c = Candidate px py ll (feature sub))))"
proof -
  let ?idx = "fold (indexLayer s) (geojsonLayers s) []"
  have "set (candidates ?idx) = (\<Union>e\<in>set (geojsonLayers s). layerCandidates s e)"
    using fold_indexLayer [OF index_wf_Nil, of s "geojsonLayers s"]
    by (simp add: candidates_Nil)
  then have "c \<in> set (candidates ?idx) \<longleftrightarrow>
      (\<exists>nm lyr. (nm, lyr) \<in> set (geojsonLayers s) \<and> c \<in> layerCandidates s (nm, lyr))" for c
    by auto
  then show ?thesis
    unfolding layerCandidates_iff hoverIndex_rebuild by simp
qed

subsection \<open>The index of a reachable state\<close>

lemma syncGeojson_eq:
  "syncGeojson h d s =
     rebuildHoverIndex (fst (upsertPass h (desiredOf d) (removalPass (fst ` set (desiredOf d)) s)))"
  by (simp add: syncGeojson_def Let_def split: prod.splits)

lemma hoverIndex_onMouseMove: "hoverIndex (onMouseMove d ev s) = hoverIndex s"
  by (simp add: onMouseMove_def Let_def)

lemma hoverIndex_frameCallback: "hoverIndex (snd (frameCallback h s)) = hoverIndex s"
  by (simp add: frameCallback_def Let_def split: option.splits)

lemma hoverIndex_onMouseOut: "hoverIndex (onMouseOut s) = hoverIndex s"
  by (simp add: onMouseOut_def)

lemma hoverIndex_showHover: "hoverIndex (showHover d s) = hoverIndex s"
  by (simp add: showHover_def)

lemma reachable_index_wf:
  assumes "reachable h s" and "hoverIndex s = Some idx"
  shows "index_wf idx"
  using assms
proof (induction arbitrary: idx rule: reachable.induct)
  case (reach_render proj)
  then show ?case by (simp add: render_def)
next
  case (reach_sync s d)
  then show ?case by (simp only: syncGeojson_eq index_wf_rebuild)
next
  case (reach_toggle s i d)
  then show ?case by (simp only: overlayToggled_def syncGeojson_eq index_wf_rebuild)
next
  case (reach_viewport s proj)
  then show ?case by (simp only: viewportChanged_def index_wf_rebuild)
next
  case (reach_move s d ev)
  then show ?case by (simp add: hoverIndex_onMouseMove)
next
  case (reach_frame s)
  then show ?case by (simp add: hoverIndex_frameCallback)
next
  case (reach_out s)
  then show ?case by (simp add: hoverIndex_onMouseOut)
next
  case (reach_show s d)
  then show ?case by (simp add: hoverIndex_showHover)
qed

lemma nearest_of_None: "nearest_of p None {}"
  by (simp add: nearest_of_def)

lemma nearest_of_Some:
  "nearest_of p (Some (b, d)) S \<longleftrightarrow>
     b \<in> S \<and> d = pixelDistance p b \<and> (\<forall>c\<in>S. d \<le> pixelDistance p c)"
  by (simp add: nearest_of_def)

lemma scan_nearest:
  "nearest_of p (fold (scanCell idx p) (neighborhood (cellKeyFromPoint p)) None)
     (\<Union>k\<in>set (neighborhood (cellKeyFromPoint p)). set (bucket idx k))"
  using nearest_of_fold_scanCell [OF nearest_of_None, of p idx "neighborhood (cellKeyFromPoint p)"]
  by simp

lemma near_visited:
  assumes wf: "index_wf idx"
    and c: "c \<in> set (candidates idx)"
    and near: "pixelDistance p c \<le> hoverThresholdPx"
  shows "c \<in> (\<Union>k\<in>set (neighborhood (cellKeyFromPoint p)). set (bucket idx k))"
proof -
  from wf have d: "distinct (map fst idx)" by (simp add: index_wf_def)
  from c obtain k where k: "c \<in> set (bucket idx k)"
    unfolding candidates_iff [OF d] ..
  from bucket_key [OF wf k] near_key [OF near] have "k \<in> set (neighborhood (cellKeyFromPoint p))"
    by simp
  with k show ?thesis by blast
qed

lemma visited_candidates:
  assumes wf: "index_wf idx"
    and c: "c \<in> (\<Union>k\<in>set ks. set (bucket idx k))"
  shows "c \<in> set (candidates idx)"
proof -
  from wf have d: "distinct (map fst idx)" by (simp add: index_wf_def)
  from c show ?thesis unfolding candidates_iff [OF d] by blast
qed

lemma queryNearest_wf:
  assumes wf: "index_wf idx"
  shows "case queryNearest idx (Fin px, Fin py) of
           Some best \<Rightarrow>
             best \<in> set (candidates idx)
             \<and> pixelDistance (px, py) best \<le> hoverThresholdPx
             \<and> (\<forall>c\<in>set (candidates idx). pixelDistance (px, py) best \<le> pixelDistance (px, py) c)
         | None \<Rightarrow> \<forall>c\<in>set (candidates idx). hoverThresholdPx < pixelDistance (px, py) c"
proof -
  let ?p = "(px, py)"
  let ?V = "\<Union>k\<in>set (neighborhood (cellKeyFromPoint ?p)). set (bucket idx k)"
  let ?acc = "fold (scanCell idx ?p) (neighborhood (cellKeyFromPoint ?p)) None"
  have acc: "nearest_of ?p ?acc ?V" by (rule scan_nearest)
  have vis: "c \<in> ?V" if "c \<in> set (candidates idx)" "pixelDistance ?p c \<le> hoverThresholdPx" for c
    using wf that by (rule near_visited)
  show ?thesis
  proof (cases ?acc)
    case None
    with acc have "?V = {}" by (simp add: nearest_of_def)
    with vis have "\<forall>c\<in>set (candidates idx). hoverThresholdPx < pixelDistance ?p c"
      by fastforce
    with None show ?thesis by (simp add: queryNearest_def)
  next
    case (Some bd)
    obtain b d where bd: "bd = (b, d)" by (cases bd)
    from acc have "nearest_of ?p (Some (b, d)) ?V" by (simp only: Some bd)
    then have n: "b \<in> ?V \<and> d = pixelDistance ?p b \<and> (\<forall>c\<in>?V. d \<le> pixelDistance ?p c)"
      by (rule nearest_of_Some [THEN iffD1])
    then have b: "b \<in> ?V" and d: "d = pixelDistance ?p b"
      and least: "\<And>c. c \<in> ?V \<Longrightarrow> d \<le> pixelDistance ?p c"
      by blast+
    show ?thesis
    proof (cases "d \<le> hoverThresholdPx")
      case True
      have "pixelDistance ?p b \<le> pixelDistance ?p c" if "c \<in> set (candidates idx)" for c
      proof (cases "pixelDistance ?p c \<le> hoverThresholdPx")
        case True
        from least [OF vis [OF that True]] d show ?thesis by simp
      next
        case False
        with \<open>d \<le> hoverThresholdPx\<close> d show ?thesis by simp
      qed
      with True Some bd d visited_candidates [OF wf b] show ?thesis
        by (simp add: queryNearest_def)
    next
      case False
      have "hoverThresholdPx < pixelDistance ?p c" if "c \<in> set (candidates idx)" for c
      proof (rule ccontr)
        assume "\<not> hoverThresholdPx < pixelDistance ?p c"
        then have le: "pixelDistance ?p c \<le> hoverThresholdPx" by simp
        from least [OF vis [OF that le]] le False show False by simp
      qed
      with False Some bd show ?thesis by (simp add: queryNearest_def)
    qed
  qed
qed

lemma queryNearest_NonFin:
  "queryNearest idx (NonFin, b) = None" "queryNearest idx (a, NonFin) = None"
  by (simp_all add: queryNearest_def split: jsnum.splits)

text \<open>
  Claim C2. In every state the program reaches, with \<open>idx\<close> the index it holds: for every
  query point with finite coordinates, a hit of the pointer-move query is an indexed
  candidate within the threshold that is at least as near as every indexed candidate, and
  a miss means that every indexed candidate is farther than the threshold; and an index
  without candidates answers every query point, finite or not, with a miss.
\<close>

theorem queryNearest_correct:
  assumes "reachable h s" and "hoverIndex s = Some idx"
  shows "(case queryNearest idx (Fin px, Fin py) of
           Some best \<Rightarrow>
             best \<in> set (candidates idx)
             \<and> pixelDistance (px, py) best \<le> hoverThresholdPx
             \<and> (\<forall>c\<in>set (candidates idx). pixelDistance (px, py) best \<le> pixelDistance (px, py) c)
         | None \<Rightarrow> \<forall>c\<in>set (candidates idx). hoverThresholdPx < pixelDistance (px, py) c)
     \<and> (candidates idx = [] \<longrightarrow> queryNearest idx q = None)"
proof
  from assms have wf: "index_wf idx" by (rule reachable_index_wf)
  then show "case queryNearest idx (Fin px, Fin py) of
           Some best \<Rightarrow>
             best \<in> set (candidates idx)
             \<and> pixelDistance (px, py) best \<le> hoverThresholdPx
             \<and> (\<forall>c\<in>set (candidates idx). pixelDistance (px, py) best \<le> pixelDistance (px, py) c)
         | None \<Rightarrow> \<forall>c\<in>set (candidates idx). hoverThresholdPx < pixelDistance (px, py) c"
    by (rule queryNearest_wf)
  show "candidates idx = [] \<longrightarrow> queryNearest idx q = None"
  proof
    assume e: "candidates idx = []"
    obtain a b where q: "q = (a, b)" by (cases q)
    show "queryNearest idx q = None"
    proof (cases a)
      case NonFin
      then show ?thesis by (simp add: q queryNearest_NonFin)
    next
      case (Fin qx)
      note a = this
      show ?thesis
      proof (cases b)
        case NonFin
        then show ?thesis by (simp add: q queryNearest_NonFin)
      next
        case (Fin qy)
        from queryNearest_wf [OF wf, of qx qy] e show ?thesis
          by (cases "queryNearest idx (Fin qx, Fin qy)") (simp_all add: q a Fin)
      qed
    qed
  qed
qed

subsection \<open>The merged map\<close>

lemma fold_update_keys:
  "fst ` set (fold (\<lambda>(k, v). AList.update k (f v)) xs acc) = fst ` set acc \<union> fst ` set xs"
  by (induction xs arbitrary: acc) (auto simp: AList.dom_update split_def)

lemma fold_update_distinct:
  "distinct (map fst acc) \<Longrightarrow> distinct (map fst (fold (\<lambda>(k, v). AList.update k (f v)) xs acc))"
  by (induction xs arbitrary: acc) (simp_all add: AList.distinct_update split_def)

lemma fold_update_map_of:
  "map_of (fold (\<lambda>(k, v). AList.update k (f v)) xs acc) k =
     (case map_of (rev xs) k of None \<Rightarrow> map_of acc k | Some v \<Rightarrow> Some (f v))"
proof (induction xs arbitrary: acc)
  case Nil
  then show ?case by simp
next
  case (Cons x xs)
  obtain k' v' where x: "x = (k', v')" by (cases x)
  show ?case
    by (simp add: Cons.IH x AList.update_conv' map_add_def split: option.splits)
qed

lemma fold_update_map_fst:
  "map fst (fold (\<lambda>(k, v). AList.update k (f v)) xs acc) =
     fold (\<lambda>k ks. if k \<in> set ks then ks else ks @ [k]) (map fst xs) (map fst acc)"
  by (induction xs arbitrary: acc) (simp_all add: AList.update_keys split_def)

lemma map_of_rev_distinct:
  "distinct (map fst xs) \<Longrightarrow> map_of (rev xs) = map_of xs"
  by (simp add: map_of_inject_set distinct_map)

lemma alist_eqI:
  assumes "distinct (map fst xs)" and "map fst xs = map fst ys" and "map_of xs = map_of ys"
  shows "xs = ys"
  using assms
proof (induction xs arbitrary: ys)
  case Nil
  then show ?case by simp
next
  case (Cons x xs)
  from Cons.prems(2) obtain y ys' where ys: "ys = y # ys'" by (cases ys) auto
  with Cons.prems(2) have k: "fst x = fst y" and ks: "map fst xs = map fst ys'" by simp_all
  from Cons.prems(3) have "map_of (x # xs) (fst x) = map_of (y # ys') (fst x)"
    by (simp only: ys)
  with k have v: "snd x = snd y" by simp
  with k have xy: "x = y" by (simp add: prod_eq_iff)
  have "map_of xs k' = map_of ys' k'" for k'
  proof (cases "k' = fst x")
    case True
    with Cons.prems(1) have a: "k' \<notin> fst ` set xs" by simp
    from a ks have b: "k' \<notin> fst ` set ys'" by (metis set_map)
    have "map_of xs k' = None" using a by (simp add: map_of_eq_None_iff)
    moreover have "map_of ys' k' = None" using b by (simp add: map_of_eq_None_iff)
    ultimately show ?thesis by simp
  next
    case False
    from Cons.prems(3) have "map_of (x # xs) k' = map_of (y # ys') k'" by (simp only: ys)
    with False k show ?thesis by simp
  qed
  then have "map_of xs = map_of ys'" by (rule ext)
  with Cons.IH [of ys'] Cons.prems(1) ks have "xs = ys'" by simp
  with xy ys show ?case by simp
qed

lemma desiredOf_keys:
  "fst ` set (desiredOf d) = fst ` set (staticDict d) \<union> fst ` set (hoverDict d)"
  by (simp add: desiredOf_def fold_update_keys)

lemma desiredOf_distinct: "distinct (map fst (desiredOf d))"
  by (simp add: desiredOf_def fold_update_distinct)

lemma desiredOf_map_of:
  "map_of (desiredOf d) k =
     (case map_of (rev (hoverDict d)) k of
        Some v \<Rightarrow> Some \<lparr> geojson = v, hoverable = True \<rparr>
      | None \<Rightarrow>
          (case map_of (rev (staticDict d)) k of
             Some v \<Rightarrow> Some \<lparr> geojson = v, hoverable = False \<rparr>
           | None \<Rightarrow> None))"
  by (simp add: desiredOf_def fold_update_map_of split: option.splits)

lemma desiredOf_map_fst:
  "map fst (desiredOf d) =
     fold (\<lambda>k ks. if k \<in> set ks then ks else ks @ [k]) (map fst (hoverDict d))
       (fold (\<lambda>k ks. if k \<in> set ks then ks else ks @ [k]) (map fst (staticDict d)) [])"
  by (simp add: desiredOf_def fold_update_map_fst)

lemma map_of_rev_in_keys:
  "k \<in> fst ` set xs \<Longrightarrow> \<exists>v. map_of (rev xs) k = Some v"
  by (metis image_set map_of_eq_None_iff not_None_eq set_rev)

subsection \<open>The removal pass\<close>

lemma detach_tables [simp]:
  "geojsonLayers (detach l s) = geojsonLayers s"
  "geojsonData (detach l s) = geojsonData s"
  "geojsonHoverable (detach l s) = geojsonHoverable s"
  "nextId (detach l s) = nextId s"
  "rebuilds (detach l s) = rebuilds s"
  "hoverIndex (detach l s) = hoverIndex s"
  by (simp_all add: detach_def)

lemma removeAbsent_tables:
  "geojsonLayers (removeAbsent D n s) = (if n \<in> D then geojsonLayers s else AList.delete n (geojsonLayers s))"
  "geojsonData (removeAbsent D n s) = (if n \<in> D then geojsonData s else AList.delete n (geojsonData s))"
  "geojsonHoverable (removeAbsent D n s) = (if n \<in> D then geojsonHoverable s else AList.delete n (geojsonHoverable s))"
  "nextId (removeAbsent D n s) = nextId s"
  "rebuilds (removeAbsent D n s) = rebuilds s"
  by (simp_all add: removeAbsent_def Let_def split: option.splits)

lemma removeAbsent_id: "n \<in> D \<Longrightarrow> removeAbsent D n s = s"
  by (simp add: removeAbsent_def)

lemma fold_removeAbsent_id: "set ns \<subseteq> D \<Longrightarrow> fold (removeAbsent D) ns s = s"
  by (induction ns arbitrary: s) (simp_all add: removeAbsent_id)

lemma delete_filter: "AList.delete n al = filter (\<lambda>e. fst e \<noteq> n) al"
  by (induction al) auto

lemma fold_removeAbsent_tables:
  "geojsonLayers (fold (removeAbsent D) ns s) = filter (\<lambda>e. fst e \<in> D \<or> fst e \<notin> set ns) (geojsonLayers s)"
  "geojsonData (fold (removeAbsent D) ns s) = filter (\<lambda>e. fst e \<in> D \<or> fst e \<notin> set ns) (geojsonData s)"
  "geojsonHoverable (fold (removeAbsent D) ns s) = filter (\<lambda>e. fst e \<in> D \<or> fst e \<notin> set ns) (geojsonHoverable s)"
  "nextId (fold (removeAbsent D) ns s) = nextId s"
  "rebuilds (fold (removeAbsent D) ns s) = rebuilds s"
proof (induction ns arbitrary: s)
  case Nil
  {
    case 1 show ?case by simp
  next
    case 2 show ?case by simp
  next
    case 3 show ?case by simp
  next
    case 4 show ?case by simp
  next
    case 5 show ?case by simp
  }
next
  case (Cons n ns)
  {
    case 1 show ?case
      by (auto simp: Cons.IH removeAbsent_tables delete_filter intro: filter_cong)
  next
    case 2 show ?case
      by (auto simp: Cons.IH removeAbsent_tables delete_filter intro: filter_cong)
  next
    case 3 show ?case
      by (auto simp: Cons.IH removeAbsent_tables delete_filter intro: filter_cong)
  next
    case 4 show ?case by (simp add: Cons.IH removeAbsent_tables)
  next
    case 5 show ?case by (simp add: Cons.IH removeAbsent_tables)
  }
qed

lemma removalPass_tables:
  "geojsonLayers (removalPass D s) = filter (\<lambda>e. fst e \<in> D) (geojsonLayers s)"
  "geojsonData (removalPass D s) =
     filter (\<lambda>e. fst e \<in> D \<or> fst e \<notin> fst ` set (geojsonLayers s)) (geojsonData s)"
  "geojsonHoverable (removalPass D s) =
     filter (\<lambda>e. fst e \<in> D \<or> fst e \<notin> fst ` set (geojsonLayers s)) (geojsonHoverable s)"
  "nextId (removalPass D s) = nextId s"
  "rebuilds (removalPass D s) = rebuilds s"
  by (auto simp: removalPass_def fold_removeAbsent_tables intro: filter_cong)

lemma removalPass_id:
  "fst ` set (geojsonLayers s) \<subseteq> D \<Longrightarrow> removalPass D s = s"
  by (simp add: removalPass_def fold_removeAbsent_id)

lemma map_of_filter_keys:
  "map_of (filter (\<lambda>e. P (fst e)) al) k = (if P k then map_of al k else None)"
  by (induction al) auto

subsection \<open>The upsert pass\<close>

lemma needsCreate_lookup:
  "needsCreate s name ser hov \<longleftrightarrow>
     map_of (geojsonLayers s) name = None
     \<or> map_of (geojsonData s) name \<noteq> Some ser
     \<or> map_of (geojsonHoverable s) name \<noteq> Some hov"
  by (simp add: needsCreate_def map_of_eq_None_iff)

lemma upsert_skip:
  "\<not> needsCreate s name (JSON_stringify h (geojson e)) (hoverable e) \<Longrightarrow>
     upsert h (name, e) (s, c) = (s, c)"
  by (simp add: upsert_def Let_def)

lemma upsert_create:
  assumes "needsCreate s name (JSON_stringify h (geojson e)) (hoverable e)"
  shows "geojsonLayers (fst (upsert h (name, e) (s, c))) =
           AList.update name (Layer (nextId s) (L_geoJSON h (geojson e))) (geojsonLayers s)"
    and "geojsonData (fst (upsert h (name, e) (s, c))) =
           AList.update name (JSON_stringify h (geojson e)) (geojsonData s)"
    and "geojsonHoverable (fst (upsert h (name, e) (s, c))) =
           AList.update name (hoverable e) (geojsonHoverable s)"
    and "nextId (fst (upsert h (name, e) (s, c))) = Suc (nextId s)"
    and "rebuilds (fst (upsert h (name, e) (s, c))) = rebuilds s"
    and "snd (upsert h (name, e) (s, c)) = True"
  using assms by (simp_all add: upsert_def Let_def split: option.splits)

lemma upsert_other:
  assumes "k \<noteq> fst ne"
  shows "map_of (geojsonLayers (fst (upsert h ne sc))) k = map_of (geojsonLayers (fst sc)) k"
    and "map_of (geojsonData (fst (upsert h ne sc))) k = map_of (geojsonData (fst sc)) k"
    and "map_of (geojsonHoverable (fst (upsert h ne sc))) k = map_of (geojsonHoverable (fst sc)) k"
proof -
  obtain name e where ne: "ne = (name, e)" by (cases ne)
  obtain s c where sc: "sc = (s, c)" by (cases sc)
  let ?n = "needsCreate s name (JSON_stringify h (geojson e)) (hoverable e)"
  show "map_of (geojsonLayers (fst (upsert h ne sc))) k = map_of (geojsonLayers (fst sc)) k"
    using assms by (cases ?n) (simp_all add: ne sc upsert_skip upsert_create AList.update_conv')
  show "map_of (geojsonData (fst (upsert h ne sc))) k = map_of (geojsonData (fst sc)) k"
    using assms by (cases ?n) (simp_all add: ne sc upsert_skip upsert_create AList.update_conv')
  show "map_of (geojsonHoverable (fst (upsert h ne sc))) k = map_of (geojsonHoverable (fst sc)) k"
    using assms by (cases ?n) (simp_all add: ne sc upsert_skip upsert_create AList.update_conv')
qed

lemma upsert_self:
  "map_of (geojsonData (fst (upsert h (name, e) (s, c)))) name = Some (JSON_stringify h (geojson e))"
  "map_of (geojsonHoverable (fst (upsert h (name, e) (s, c)))) name = Some (hoverable e)"
  "map_of (geojsonLayers (fst (upsert h (name, e) (s, c)))) name =
     (if needsCreate s name (JSON_stringify h (geojson e)) (hoverable e)
      then Some (Layer (nextId s) (L_geoJSON h (geojson e)))
      else map_of (geojsonLayers s) name)"
  "map_of (geojsonLayers (fst (upsert h (name, e) (s, c)))) name \<noteq> None"
  by (cases "needsCreate s name (JSON_stringify h (geojson e)) (hoverable e)";
      simp add: upsert_skip upsert_create AList.update_conv' needsCreate_lookup)+

lemma upsert_keys:
  "fst ` set (geojsonLayers (fst (upsert h ne sc))) = insert (fst ne) (fst ` set (geojsonLayers (fst sc)))"
  "fst ` set (geojsonData (fst (upsert h ne sc))) = insert (fst ne) (fst ` set (geojsonData (fst sc)))"
  "fst ` set (geojsonHoverable (fst (upsert h ne sc))) = insert (fst ne) (fst ` set (geojsonHoverable (fst sc)))"
proof -
  obtain name e where ne: "ne = (name, e)" by (cases ne)
  obtain s c where sc: "sc = (s, c)" by (cases sc)
  let ?n = "needsCreate s name (JSON_stringify h (geojson e)) (hoverable e)"
  have in_keys: "k \<in> fst ` set al" if "map_of al k = Some v" for k v and al :: "(string \<times> 'x) list"
    using that by (metis map_of_eq_None_iff option.distinct(1))
  show "fst ` set (geojsonLayers (fst (upsert h ne sc))) = insert (fst ne) (fst ` set (geojsonLayers (fst sc)))"
  proof (cases ?n)
    case True
    then show ?thesis by (simp add: ne sc upsert_create AList.dom_update)
  next
    case False
    then have "name \<in> fst ` set (geojsonLayers s)" by (simp add: needsCreate_def)
    with False show ?thesis by (auto simp: ne sc upsert_skip)
  qed
  show "fst ` set (geojsonData (fst (upsert h ne sc))) = insert (fst ne) (fst ` set (geojsonData (fst sc)))"
  proof (cases ?n)
    case True
    then show ?thesis by (simp add: ne sc upsert_create AList.dom_update)
  next
    case False
    then have "map_of (geojsonData s) name = Some (JSON_stringify h (geojson e))"
      by (simp add: needsCreate_def)
    then have "name \<in> fst ` set (geojsonData s)" by (rule in_keys)
    with False show ?thesis by (auto simp: ne sc upsert_skip)
  qed
  show "fst ` set (geojsonHoverable (fst (upsert h ne sc))) = insert (fst ne) (fst ` set (geojsonHoverable (fst sc)))"
  proof (cases ?n)
    case True
    then show ?thesis by (simp add: ne sc upsert_create AList.dom_update)
  next
    case False
    then have "map_of (geojsonHoverable s) name = Some (hoverable e)"
      by (simp add: needsCreate_def)
    then have "name \<in> fst ` set (geojsonHoverable s)" by (rule in_keys)
    with False show ?thesis by (auto simp: ne sc upsert_skip)
  qed
qed

lemma upsert_nextId: "nextId (fst sc) \<le> nextId (fst (upsert h ne sc))"
proof -
  obtain name e where ne: "ne = (name, e)" by (cases ne)
  obtain s c where sc: "sc = (s, c)" by (cases sc)
  show ?thesis
    by (cases "needsCreate s name (JSON_stringify h (geojson e)) (hoverable e)")
      (simp_all add: ne sc upsert_skip upsert_create)
qed


lemma fold_upsert_keys:
  "fst ` set (geojsonLayers (fst (fold (upsert h) des sc))) = fst ` set (geojsonLayers (fst sc)) \<union> fst ` set des"
  "fst ` set (geojsonData (fst (fold (upsert h) des sc))) = fst ` set (geojsonData (fst sc)) \<union> fst ` set des"
  "fst ` set (geojsonHoverable (fst (fold (upsert h) des sc))) = fst ` set (geojsonHoverable (fst sc)) \<union> fst ` set des"
  by (induction des arbitrary: sc; simp add: upsert_keys)+

lemma fold_upsert_other:
  assumes "k \<notin> fst ` set des"
  shows "map_of (geojsonLayers (fst (fold (upsert h) des sc))) k = map_of (geojsonLayers (fst sc)) k"
    and "map_of (geojsonData (fst (fold (upsert h) des sc))) k = map_of (geojsonData (fst sc)) k"
    and "map_of (geojsonHoverable (fst (fold (upsert h) des sc))) k = map_of (geojsonHoverable (fst sc)) k"
  using assms by (induction des arbitrary: sc; simp add: upsert_other)+

lemma fold_upsert_nextId: "nextId (fst sc) \<le> nextId (fst (fold (upsert h) des sc))"
proof (induction des arbitrary: sc)
  case Nil
  then show ?case by simp
next
  case (Cons ne des)
  from upsert_nextId [of sc h ne] Cons.IH [of "upsert h ne sc"] show ?case by simp
qed


lemma fold_upsert_id:
  assumes "\<And>name e. (name, e) \<in> set des \<Longrightarrow>
     \<not> needsCreate s name (JSON_stringify h (geojson e)) (hoverable e)"
  shows "fold (upsert h) des (s, c) = (s, c)"
  using assms
proof (induction des)
  case Nil
  then show ?case by simp
next
  case (Cons ne des)
  obtain name e where ne: "ne = (name, e)" by (cases ne)
  from Cons.prems [of name e] have "upsert h ne (s, c) = (s, c)"
    by (simp add: ne upsert_skip)
  with Cons show ?case by simp
qed

lemma rebuildHoverIndex_fields [simp]:
  "geojsonLayers (rebuildHoverIndex s) = geojsonLayers s"
  "geojsonData (rebuildHoverIndex s) = geojsonData s"
  "geojsonHoverable (rebuildHoverIndex s) = geojsonHoverable s"
  "nextId (rebuildHoverIndex s) = nextId s"
  "mapLayers (rebuildHoverIndex s) = mapLayers s"
  "rebuilds (rebuildHoverIndex s) = Suc (rebuilds s)"
  by (simp_all add: rebuildHoverIndex_def)

lemma upsert_self_pair:
  "map_of (geojsonData (fst (upsert h (name, e) sc))) name = Some (JSON_stringify h (geojson e))"
  "map_of (geojsonHoverable (fst (upsert h (name, e) sc))) name = Some (hoverable e)"
  "map_of (geojsonLayers (fst (upsert h (name, e) sc))) name =
     (if needsCreate (fst sc) name (JSON_stringify h (geojson e)) (hoverable e)
      then Some (Layer (nextId (fst sc)) (L_geoJSON h (geojson e)))
      else map_of (geojsonLayers (fst sc)) name)"
  "map_of (geojsonLayers (fst (upsert h (name, e) sc))) name \<noteq> None"
proof -
  obtain s c where sc: "sc = (s, c)" by (cases sc)
  show "map_of (geojsonData (fst (upsert h (name, e) sc))) name = Some (JSON_stringify h (geojson e))"
    unfolding sc by (rule upsert_self(1))
  show "map_of (geojsonHoverable (fst (upsert h (name, e) sc))) name = Some (hoverable e)"
    unfolding sc by (rule upsert_self(2))
  show "map_of (geojsonLayers (fst (upsert h (name, e) sc))) name =
     (if needsCreate (fst sc) name (JSON_stringify h (geojson e)) (hoverable e)
      then Some (Layer (nextId (fst sc)) (L_geoJSON h (geojson e)))
      else map_of (geojsonLayers (fst sc)) name)"
    unfolding sc fst_conv by (rule upsert_self(3))
  show "map_of (geojsonLayers (fst (upsert h (name, e) sc))) name \<noteq> None"
    unfolding sc by (rule upsert_self(4))
qed

lemma fold_upsert_self_data:
  assumes "distinct (map fst des)" and "(name, e) \<in> set des"
  shows "map_of (geojsonData (fst (fold (upsert h) des sc))) name = Some (JSON_stringify h (geojson e))"
  using assms
proof (induction des arbitrary: sc)
  case Nil
  then show ?case by simp
next
  case (Cons x des)
  show ?case
  proof (cases "x = (name, e)")
    case True
    with Cons.prems(1) have "name \<notin> fst ` set des" by simp
    with True show ?thesis by (simp add: fold_upsert_other upsert_self_pair)
  next
    case False
    with Cons.prems have "distinct (map fst des)" "(name, e) \<in> set des" by simp_all
    then show ?thesis using Cons.IH [of "upsert h x sc"] by simp
  qed
qed

lemma fold_upsert_self_hoverable:
  assumes "distinct (map fst des)" and "(name, e) \<in> set des"
  shows "map_of (geojsonHoverable (fst (fold (upsert h) des sc))) name = Some (hoverable e)"
  using assms
proof (induction des arbitrary: sc)
  case Nil
  then show ?case by simp
next
  case (Cons x des)
  show ?case
  proof (cases "x = (name, e)")
    case True
    with Cons.prems(1) have "name \<notin> fst ` set des" by simp
    with True show ?thesis by (simp add: fold_upsert_other upsert_self_pair)
  next
    case False
    with Cons.prems have "distinct (map fst des)" "(name, e) \<in> set des" by simp_all
    then show ?thesis using Cons.IH [of "upsert h x sc"] by simp
  qed
qed

lemma fold_upsert_self_layer:
  assumes "distinct (map fst des)" and "(name, e) \<in> set des"
  shows "if needsCreate (fst sc) name (JSON_stringify h (geojson e)) (hoverable e)
         then \<exists>i\<ge>nextId (fst sc).
             map_of (geojsonLayers (fst (fold (upsert h) des sc))) name = Some (Layer i (L_geoJSON h (geojson e)))
         else map_of (geojsonLayers (fst (fold (upsert h) des sc))) name = map_of (geojsonLayers (fst sc)) name"
  using assms
proof (induction des arbitrary: sc)
  case Nil
  then show ?case by simp
next
  case (Cons x des)
  let ?ser = "JSON_stringify h (geojson e)"
  let ?sc' = "upsert h x sc"
  show ?case
  proof (cases "x = (name, e)")
    case True
    with Cons.prems(1) have notin: "name \<notin> fst ` set des" by simp
    have eq: "map_of (geojsonLayers (fst (fold (upsert h) des (upsert h x sc)))) name =
        map_of (geojsonLayers (fst (upsert h (name, e) sc))) name"
      using notin True by (simp add: fold_upsert_other)
    show ?thesis
    proof (cases "needsCreate (fst sc) name ?ser (hoverable e)")
      case True
      then have "map_of (geojsonLayers (fst (fold (upsert h) des (upsert h x sc)))) name =
          Some (Layer (nextId (fst sc)) (L_geoJSON h (geojson e)))"
        by (simp add: eq upsert_self_pair)
      then have "\<exists>i\<ge>nextId (fst sc).
          map_of (geojsonLayers (fst (fold (upsert h) des (upsert h x sc)))) name =
            Some (Layer i (L_geoJSON h (geojson e)))"
        by blast
      with True show ?thesis by simp
    next
      case False
      then have "map_of (geojsonLayers (fst (fold (upsert h) des (upsert h x sc)))) name =
          map_of (geojsonLayers (fst sc)) name"
        by (simp add: eq upsert_self_pair)
      with False show ?thesis by simp
    qed
  next
    case False
    with Cons.prems have d: "distinct (map fst des)" "(name, e) \<in> set des" by simp_all
    from Cons.prems(1) have nx: "fst x \<notin> fst ` set des" by simp
    have ne: "name \<noteq> fst x"
    proof
      assume "name = fst x"
      with d(2) have "(fst x, e) \<in> set des" by simp
      then have "fst (fst x, e) \<in> fst ` set des" by (rule imageI)
      with nx show False by simp
    qed
    have same: "needsCreate (fst ?sc') name ?ser (hoverable e) = needsCreate (fst sc) name ?ser (hoverable e)"
      by (simp add: needsCreate_lookup upsert_other [OF ne])
    show ?thesis
    proof (cases "needsCreate (fst sc) name ?ser (hoverable e)")
      case True
      with same have "needsCreate (fst ?sc') name ?ser (hoverable e)" by simp
      with Cons.IH [OF d, of ?sc'] have "\<exists>i\<ge>nextId (fst ?sc').
          map_of (geojsonLayers (fst (fold (upsert h) des ?sc'))) name = Some (Layer i (L_geoJSON h (geojson e)))"
        by (simp only: if_True)
      then obtain i where
        i: "nextId (fst ?sc') \<le> i"
           "map_of (geojsonLayers (fst (fold (upsert h) des ?sc'))) name = Some (Layer i (L_geoJSON h (geojson e)))"
        by blast
      from i(1) upsert_nextId [of sc h x] have "nextId (fst sc) \<le> i" by simp
      with i(2) have "\<exists>i\<ge>nextId (fst sc).
          map_of (geojsonLayers (fst (fold (upsert h) des (upsert h x sc)))) name =
            Some (Layer i (L_geoJSON h (geojson e)))"
        by auto
      with True show ?thesis by simp
    next
      case False
      with same have "\<not> needsCreate (fst ?sc') name ?ser (hoverable e)" by simp
      with Cons.IH [OF d, of ?sc'] have
        "map_of (geojsonLayers (fst (fold (upsert h) des ?sc'))) name = map_of (geojsonLayers (fst ?sc')) name"
        by (simp only: if_False)
      then have "map_of (geojsonLayers (fst (fold (upsert h) des (upsert h x sc)))) name =
          map_of (geojsonLayers (fst sc)) name"
        by (simp add: upsert_other [OF ne])
      with False show ?thesis by simp
    qed
  qed
qed

subsection \<open>A whole pass\<close>

lemma syncGeojson_names:
  "fst ` set (geojsonLayers (syncGeojson h d s)) = fst ` set (desiredOf d)"
  by (auto simp: syncGeojson_eq upsertPass_def fold_upsert_keys removalPass_tables)

lemma syncGeojson_names_data:
  assumes "fst ` set (geojsonData s) \<subseteq> fst ` set (geojsonLayers s)"
  shows "fst ` set (geojsonData (syncGeojson h d s)) = fst ` set (desiredOf d)"
  using assms
  by (auto simp: syncGeojson_eq upsertPass_def fold_upsert_keys removalPass_tables)

lemma syncGeojson_names_hoverable:
  assumes "fst ` set (geojsonHoverable s) \<subseteq> fst ` set (geojsonLayers s)"
  shows "fst ` set (geojsonHoverable (syncGeojson h d s)) = fst ` set (desiredOf d)"
  using assms
  by (auto simp: syncGeojson_eq upsertPass_def fold_upsert_keys removalPass_tables)

lemma set_update_subset: "set (AList.update k v al) \<subseteq> insert (k, v) (set al)"
  by (induction al) auto

lemma upsert_fresh:
  assumes "\<forall>e\<in>set (geojsonLayers (fst sc)). lid (snd e) < nextId (fst sc)"
  shows "\<forall>e\<in>set (geojsonLayers (fst (upsert h ne sc))). lid (snd e) < nextId (fst (upsert h ne sc))"
proof -
  obtain name e where ne: "ne = (name, e)" by (cases ne)
  obtain s c where sc: "sc = (s, c)" by (cases sc)
  show ?thesis
  proof (cases "needsCreate s name (JSON_stringify h (geojson e)) (hoverable e)")
    case True
    have "set (geojsonLayers (fst (upsert h ne sc))) \<subseteq>
        insert (name, Layer (nextId s) (L_geoJSON h (geojson e))) (set (geojsonLayers s))"
      by (simp add: ne sc upsert_create(1) [OF True] set_update_subset)
    moreover have "nextId (fst (upsert h ne sc)) = Suc (nextId s)"
      by (simp add: ne sc upsert_create(4) [OF True])
    ultimately show ?thesis using assms by (fastforce simp: sc)
  next
    case False
    with assms show ?thesis by (simp add: ne sc upsert_skip)
  qed
qed

lemma fold_upsert_fresh:
  assumes "\<forall>e\<in>set (geojsonLayers (fst sc)). lid (snd e) < nextId (fst sc)"
  shows "\<forall>e\<in>set (geojsonLayers (fst (fold (upsert h) des sc))). lid (snd e) < nextId (fst (fold (upsert h) des sc))"
  using assms
proof (induction des arbitrary: sc)
  case Nil
  then show ?case by simp
next
  case (Cons ne des)
  from Cons.IH [OF upsert_fresh [OF Cons.prems, of h ne]] show ?case by simp
qed

lemma tables_inv_syncGeojson:
  assumes "tables_inv s"
  shows "tables_inv (syncGeojson h d s)"
proof -
  from assms have sub: "fst ` set (geojsonData s) \<subseteq> fst ` set (geojsonLayers s)"
    "fst ` set (geojsonHoverable s) \<subseteq> fst ` set (geojsonLayers s)"
    and fresh: "\<forall>e\<in>set (geojsonLayers s). lid (snd e) < nextId s"
    by (simp_all add: tables_inv_def)
  let ?s1 = "removalPass (set (map fst (desiredOf d))) s"
  from fresh have "\<forall>e\<in>set (geojsonLayers (fst (?s1, False))). lid (snd e) < nextId (fst (?s1, False))"
    by (simp add: removalPass_tables)
  from fold_upsert_fresh [OF this, of h "desiredOf d"]
  have "\<forall>e\<in>set (geojsonLayers (syncGeojson h d s)). lid (snd e) < nextId (syncGeojson h d s)"
    by (simp add: syncGeojson_eq upsertPass_def)
  with syncGeojson_names [of h d s] syncGeojson_names_data [OF sub(1), of h d]
    syncGeojson_names_hoverable [OF sub(2), of h d]
  show ?thesis by (simp add: tables_inv_def)
qed

lemma tables_inv_cong:
  assumes "tables_inv s"
    and "geojsonLayers s' = geojsonLayers s" and "geojsonData s' = geojsonData s"
    and "geojsonHoverable s' = geojsonHoverable s" and "nextId s' = nextId s"
  shows "tables_inv s'"
  using assms by (simp add: tables_inv_def)

lemma reachable_tables_inv:
  assumes "reachable h s"
  shows "tables_inv s"
  using assms
proof (induction rule: reachable.induct)
  case (reach_render proj)
  show ?case by (simp add: tables_inv_def render_def)
next
  case (reach_sync s d)
  then show ?case by (simp add: tables_inv_syncGeojson)
next
  case (reach_toggle s i d)
  have "tables_inv (s\<lparr>mapLayers := (if i \<in> mapLayers s then mapLayers s - {i} else insert i (mapLayers s))\<rparr>)"
    using reach_toggle.IH by (rule tables_inv_cong) simp_all
  then show ?case unfolding overlayToggled_def by (rule tables_inv_syncGeojson)
next
  case (reach_viewport s proj)
  from reach_viewport.IH show ?case
    by (rule tables_inv_cong) (simp_all add: viewportChanged_def)
next
  case (reach_move s d ev)
  from reach_move.IH show ?case
    by (rule tables_inv_cong) (simp_all add: onMouseMove_def Let_def)
next
  case (reach_frame s)
  from reach_frame.IH show ?case
    by (rule tables_inv_cong) (simp_all add: frameCallback_def Let_def split: option.splits)
next
  case (reach_out s)
  from reach_out.IH show ?case
    by (rule tables_inv_cong) (simp_all add: onMouseOut_def)
next
  case (reach_show s d)
  from reach_show.IH show ?case
    by (rule tables_inv_cong) (simp_all add: showHover_def)
qed

text \<open>
  Claim C4. After a reconciliation pass from any state the program reaches, the names in
  the table of drawables, in the table of fingerprints and in the table of eligibility
  flags are exactly the names of the snapshot (those of the static group and those of the
  hover group): none is missing, and for a name the snapshot lacks none of the three tables
  has an entry.
\<close>

theorem tables_match_snapshot:
  assumes "reachable h s"
  shows "fst ` set (geojsonLayers (syncGeojson h d s)) = fst ` set (staticDict d) \<union> fst ` set (hoverDict d)
     \<and> fst ` set (geojsonData (syncGeojson h d s)) = fst ` set (staticDict d) \<union> fst ` set (hoverDict d)
     \<and> fst ` set (geojsonHoverable (syncGeojson h d s)) = fst ` set (staticDict d) \<union> fst ` set (hoverDict d)
     \<and> (\<forall>name. name \<notin> fst ` set (staticDict d) \<union> fst ` set (hoverDict d) \<longrightarrow>
           map_of (geojsonLayers (syncGeojson h d s)) name = None
           \<and> map_of (geojsonData (syncGeojson h d s)) name = None
           \<and> map_of (geojsonHoverable (syncGeojson h d s)) name = None)"
proof -
  from assms have "tables_inv s" by (rule reachable_tables_inv)
  then have sub: "fst ` set (geojsonData s) \<subseteq> fst ` set (geojsonLayers s)"
    "fst ` set (geojsonHoverable s) \<subseteq> fst ` set (geojsonLayers s)"
    by (simp_all add: tables_inv_def)
  have names: "fst ` set (geojsonLayers (syncGeojson h d s)) = fst ` set (staticDict d) \<union> fst ` set (hoverDict d)"
    "fst ` set (geojsonData (syncGeojson h d s)) = fst ` set (staticDict d) \<union> fst ` set (hoverDict d)"
    "fst ` set (geojsonHoverable (syncGeojson h d s)) = fst ` set (staticDict d) \<union> fst ` set (hoverDict d)"
    by (simp_all only: syncGeojson_names syncGeojson_names_data [OF sub(1)]
          syncGeojson_names_hoverable [OF sub(2)] desiredOf_keys)
  show ?thesis
    unfolding map_of_eq_None_iff names by simp
qed

lemma syncGeojson_tables:
  "geojsonLayers (syncGeojson h d s) =
     geojsonLayers (fst (fold (upsert h) (desiredOf d) (removalPass (fst ` set (desiredOf d)) s, False)))"
  "geojsonData (syncGeojson h d s) =
     geojsonData (fst (fold (upsert h) (desiredOf d) (removalPass (fst ` set (desiredOf d)) s, False)))"
  "geojsonHoverable (syncGeojson h d s) =
     geojsonHoverable (fst (fold (upsert h) (desiredOf d) (removalPass (fst ` set (desiredOf d)) s, False)))"
  by (simp_all add: syncGeojson_eq upsertPass_def)

lemma second_pass_noop:
  "removalPass (fst ` set (desiredOf d)) (syncGeojson h d s) = syncGeojson h d s
   \<and> upsertPass h (desiredOf d) (syncGeojson h d s) = (syncGeojson h d s, False)"
proof -
  let ?s' = "syncGeojson h d s"
  have rem: "removalPass (fst ` set (desiredOf d)) ?s' = ?s'"
    by (rule removalPass_id) (simp add: syncGeojson_names)
  have "\<not> needsCreate ?s' name (JSON_stringify h (geojson e)) (hoverable e)"
    if "(name, e) \<in> set (desiredOf d)" for name e
  proof -
    from that have "fst (name, e) \<in> fst ` set (desiredOf d)" by (rule imageI)
    then have "name \<in> fst ` set (geojsonLayers ?s')" by (simp add: syncGeojson_names)
    moreover have "map_of (geojsonData ?s') name = Some (JSON_stringify h (geojson e))"
      unfolding syncGeojson_tables by (rule fold_upsert_self_data [OF desiredOf_distinct that])
    moreover have "map_of (geojsonHoverable ?s') name = Some (hoverable e)"
      unfolding syncGeojson_tables by (rule fold_upsert_self_hoverable [OF desiredOf_distinct that])
    ultimately show ?thesis by (simp add: needsCreate_def)
  qed
  then have "fold (upsert h) (desiredOf d) (?s', False) = (?s', False)"
    by (rule fold_upsert_id)
  with rem show ?thesis by (simp add: upsertPass_def)
qed

lemma syncGeojson_second:
  "syncGeojson h d (syncGeojson h d s) = rebuildHoverIndex (syncGeojson h d s)"
  by (simp add: syncGeojson_eq [of h d "syncGeojson h d s"] second_pass_noop)

lemma syncGeojson_layer:
  assumes "(name, e) \<in> set (desiredOf d)"
  shows "if needsCreate s name (JSON_stringify h (geojson e)) (hoverable e)
         then \<exists>i\<ge>nextId s.
             map_of (geojsonLayers (syncGeojson h d s)) name = Some (Layer i (L_geoJSON h (geojson e)))
         else map_of (geojsonLayers (syncGeojson h d s)) name = map_of (geojsonLayers s) name"
proof -
  let ?D = "fst ` set (desiredOf d)"
  let ?s1 = "removalPass ?D s"
  from assms have "fst (name, e) \<in> fst ` set (desiredOf d)" by (rule imageI)
  then have inD: "name \<in> ?D" by simp
  have look: "map_of (geojsonLayers ?s1) name = map_of (geojsonLayers s) name"
    "map_of (geojsonData ?s1) name = map_of (geojsonData s) name"
    "map_of (geojsonHoverable ?s1) name = map_of (geojsonHoverable s) name"
    using inD
    by (simp_all add: removalPass_tables
          map_of_filter_keys [where P = "\<lambda>k. k \<in> fst ` set (desiredOf d)"]
          map_of_filter_keys [where P = "\<lambda>k. k \<in> fst ` set (desiredOf d) \<or> k \<notin> fst ` set (geojsonLayers s)"])
  have same: "needsCreate (fst (?s1, False)) name (JSON_stringify h (geojson e)) (hoverable e) =
      needsCreate s name (JSON_stringify h (geojson e)) (hoverable e)"
    by (simp add: needsCreate_lookup look)
  have tabs: "geojsonLayers (syncGeojson h d s) =
      geojsonLayers (fst (fold (upsert h) (desiredOf d) (?s1, False)))"
    by (simp add: syncGeojson_eq upsertPass_def)
  have nid: "nextId (fst (?s1, False)) = nextId s"
    by (simp add: removalPass_tables)
  have l0: "map_of (geojsonLayers (fst (?s1, False))) name = map_of (geojsonLayers s) name"
    using look by simp
  show ?thesis
    using fold_upsert_self_layer [OF desiredOf_distinct assms, of "(?s1, False)" h]
    unfolding same tabs nid l0 by assumption
qed

text \<open>
  Claim C5. In a pass from any state the program reaches, for every name of the merged
  map: the stored drawable of the name after the pass differs from the one before exactly
  when the name was not stored, or the stored fingerprint is not the serialization of the
  new content, or the stored eligibility flag is not the new one; in that case it is a
  drawable constructed in this pass from the new content. A second pass on the same data
  is nothing but the rebuild of the index: the table of drawables, with the identity of
  every drawable, is the same, and no drawable is constructed.
\<close>

theorem recreate_iff_changed:
  assumes "reachable h s" and "(name, e) \<in> set (desiredOf d)"
  shows "(map_of (geojsonLayers (syncGeojson h d s)) name \<noteq> map_of (geojsonLayers s) name \<longleftrightarrow>
            name \<notin> fst ` set (geojsonLayers s)
            \<or> map_of (geojsonData s) name \<noteq> Some (JSON_stringify h (geojson e))
            \<or> map_of (geojsonHoverable s) name \<noteq> Some (hoverable e))
     \<and> (map_of (geojsonLayers (syncGeojson h d s)) name \<noteq> map_of (geojsonLayers s) name \<longrightarrow>
          (\<exists>i\<ge>nextId s.
             map_of (geojsonLayers (syncGeojson h d s)) name = Some (Layer i (L_geoJSON h (geojson e)))))
     \<and> syncGeojson h d (syncGeojson h d s) = rebuildHoverIndex (syncGeojson h d s)
     \<and> geojsonLayers (syncGeojson h d (syncGeojson h d s)) = geojsonLayers (syncGeojson h d s)
     \<and> nextId (syncGeojson h d (syncGeojson h d s)) = nextId (syncGeojson h d s)"
proof -
  let ?n = "needsCreate s name (JSON_stringify h (geojson e)) (hoverable e)"
  let ?new = "map_of (geojsonLayers (syncGeojson h d s)) name"
  let ?old = "map_of (geojsonLayers s) name"
  from assms(1) have "tables_inv s" by (rule reachable_tables_inv)
  then have fresh: "\<And>l. (name, l) \<in> set (geojsonLayers s) \<Longrightarrow> lid l < nextId s"
    by (fastforce simp: tables_inv_def)
  have created: "\<exists>i\<ge>nextId s. ?new = Some (Layer i (L_geoJSON h (geojson e)))" if ?n
    using syncGeojson_layer [OF assms(2), of s h] that by simp
  have kept: "?new = ?old" if "\<not> ?n"
    using syncGeojson_layer [OF assms(2), of s h] that by simp
  have differs: "?new \<noteq> ?old" if ?n
  proof
    assume eq: "?new = ?old"
    from created [OF that] obtain i where i: "nextId s \<le> i" "?new = Some (Layer i (L_geoJSON h (geojson e)))"
      by blast
    with eq have "(name, Layer i (L_geoJSON h (geojson e))) \<in> set (geojsonLayers s)"
      by (simp add: map_of_SomeD)
    from fresh [OF this] i(1) show False by simp
  qed
  have iff: "?new \<noteq> ?old \<longleftrightarrow> ?n"
    using differs kept by blast
  have second: "syncGeojson h d (syncGeojson h d s) = rebuildHoverIndex (syncGeojson h d s)"
    by (rule syncGeojson_second)
  show ?thesis
    using iff created second unfolding needsCreate_def by simp
qed


text \<open>
  Claim C6. For every pair of input groups and every name in both, the merged map has an
  entry for the name, that entry is hover-eligible, and after the pass the eligibility
  flag stored for the name is true.
\<close>

theorem hover_wins:
  assumes "name \<in> fst ` set (staticDict d)" and "name \<in> fst ` set (hoverDict d)"
  shows "(\<exists>e. map_of (desiredOf d) name = Some e \<and> hoverable e)
     \<and> map_of (geojsonHoverable (syncGeojson h d s)) name = Some True"
proof -
  from assms(2) obtain v where v: "map_of (rev (hoverDict d)) name = Some v"
    using map_of_rev_in_keys by fastforce
  then have m: "map_of (desiredOf d) name = Some \<lparr> geojson = v, hoverable = True \<rparr>"
    by (simp add: desiredOf_map_of)
  then have "(name, \<lparr> geojson = v, hoverable = True \<rparr>) \<in> set (desiredOf d)"
    by (rule map_of_SomeD)
  from fold_upsert_self_hoverable [OF desiredOf_distinct this]
  have "map_of (geojsonHoverable (syncGeojson h d s)) name = Some True"
    by (simp add: syncGeojson_tables)
  with m show ?thesis by simp
qed

lemma map_of_map_values:
  "map_of (map (\<lambda>(k, x). (k, f k x)) xs) k = map_option (f k) (map_of xs k)"
  by (induction xs) auto

lemma map_fst_map_values:
  "map fst (map (\<lambda>(k, x). (k, f k x)) xs) = map fst xs"
  by (induction xs) auto

lemma map_of_rev_replace:
  assumes "k \<noteq> name"
  shows "map_of (rev (map (\<lambda>(k, x). (k, if k = name then w else x)) xs)) k = map_of (rev xs) k"
  unfolding rev_map map_of_map_values
  using assms by (cases "map_of (rev xs) k") simp_all

lemma syncGeojson_desired_cong:
  "desiredOf d' = desiredOf d \<Longrightarrow> syncGeojson h d' s = syncGeojson h d s"
  by (simp add: syncGeojson_def)

text \<open>
  Claim C9. When a name of the static group is also in the hover group (whose names are
  distinct, as the keys of an object are), the merged entry of the name holds the content of
  the hover group, the fingerprint stored after the pass is the serialization of that
  content, and the pass ends in the same state whatever content the static group has
  under the name: that content is neither drawn nor serialized.
\<close>

theorem hover_content_wins:
  assumes "name \<in> fst ` set (staticDict d)"
    and "distinct (map fst (hoverDict d))"
    and "map_of (hoverDict d) name = Some v"
  shows "map_of (desiredOf d) name = Some \<lparr> geojson = v, hoverable = True \<rparr>
     \<and> map_of (geojsonData (syncGeojson h d s)) name = Some (JSON_stringify h v)
     \<and> syncGeojson h
          (d\<lparr> geojson_overlays :=
               Some (map (\<lambda>(k, x). (k, if k = name then w else x)) (staticDict d)) \<rparr>) s =
        syncGeojson h d s"
proof -
  let ?d' = "d\<lparr> geojson_overlays :=
               Some (map (\<lambda>(k, x). (k, if k = name then w else x)) (staticDict d)) \<rparr>"
  from assms(2,3) have v: "map_of (rev (hoverDict d)) name = Some v"
    by (simp add: map_of_rev_distinct)
  then have m: "map_of (desiredOf d) name = Some \<lparr> geojson = v, hoverable = True \<rparr>"
    by (simp add: desiredOf_map_of)
  then have "(name, \<lparr> geojson = v, hoverable = True \<rparr>) \<in> set (desiredOf d)"
    by (rule map_of_SomeD)
  from fold_upsert_self_data [OF desiredOf_distinct this]
  have fp: "map_of (geojsonData (syncGeojson h d s)) name = Some (JSON_stringify h v)"
    by (simp add: syncGeojson_tables)
  have st: "staticDict ?d' = map (\<lambda>(k, x). (k, if k = name then w else x)) (staticDict d)"
    and hv: "hoverDict ?d' = hoverDict d"
    by (simp_all add: staticDict_def hoverDict_def)
  have ks: "map fst (staticDict ?d') = map fst (staticDict d)"
    unfolding st by (rule map_fst_map_values)
  have keys: "map fst (desiredOf ?d') = map fst (desiredOf d)"
    by (simp only: desiredOf_map_fst hv ks)
  have look: "map_of (desiredOf ?d') k = map_of (desiredOf d) k" for k
  proof (cases "k = name")
    case True
    with v show ?thesis by (simp add: desiredOf_map_of hv)
  next
    case False
    have "map_of (rev (staticDict ?d')) k = map_of (rev (staticDict d)) k"
      unfolding st using False by (rule map_of_rev_replace)
    then show ?thesis by (simp only: desiredOf_map_of hv)
  qed
  then have "map_of (desiredOf ?d') = map_of (desiredOf d)" by (rule ext)
  with desiredOf_distinct keys have "desiredOf ?d' = desiredOf d" by (rule alist_eqI)
  then have "syncGeojson h ?d' s = syncGeojson h d s" by (rule syncGeojson_desired_cong)
  with m fp show ?thesis by simp
qed

subsection \<open>The frame callback\<close>

lemma frameCallback_hit:
  assumes "mmLast s = Some e" and "hoverIndex s = Some idx"
    and "queryNearest idx (projection s e) = Some best"
  shows "frameCallback h s =
     (None,
      s\<lparr> mmPending := False,
         hoverLatLng := cand_latlng best,
         hoverTooltip := featureText h (cand_feature best),
         hoverOnMap := True,
         hoverTooltipOpen := True,
         dispatched := dispatched s @ [cand_feature best] \<rparr>)"
  using assms by (simp add: frameCallback_def Let_def)

lemma frameCallback_miss:
  assumes "mmLast s = Some e" and "hoverIndex s = Some idx"
    and "queryNearest idx (projection s e) = None"
  shows "frameCallback h s =
     (None, s\<lparr> mmPending := False, hoverOnMap := False, hoverTooltipOpen := False \<rparr>)"
  using assms by (simp add: frameCallback_def Let_def)

lemma frame_outcome:
  assumes "mmLast s = Some e" and "hoverIndex s = Some idx"
  shows "fst (frameCallback h s) = None
     \<and> (case queryNearest idx (projection s e) of
           Some best \<Rightarrow>
             hoverLatLng (snd (frameCallback h s)) = cand_latlng best
             \<and> hoverTooltip (snd (frameCallback h s)) =
                 (case cand_feature best of
                    None \<Rightarrow> Text []
                  | Some ft \<Rightarrow>
                      (case properties ft of
                         None \<Rightarrow> Text []
                       | Some props \<Rightarrow>
                           (case map_of props ''name'' of
                              Some n \<Rightarrow>
                                if ToBoolean h n then Raw n
                                else Text (join '', '' (map (\<lambda>(k, v). k @ '': '' @ ToString h v) props))
                            | None \<Rightarrow>
                                Text (join '', '' (map (\<lambda>(k, v). k @ '': '' @ ToString h v) props)))))
             \<and> hoverOnMap (snd (frameCallback h s))
             \<and> hoverTooltipOpen (snd (frameCallback h s))
             \<and> dispatched (snd (frameCallback h s)) = dispatched s @ [cand_feature best]
         | None \<Rightarrow>
             \<not> hoverOnMap (snd (frameCallback h s))
             \<and> \<not> hoverTooltipOpen (snd (frameCallback h s))
             \<and> dispatched (snd (frameCallback h s)) = dispatched s)"
proof (cases "queryNearest idx (projection s e)")
  case None
  with frameCallback_miss [OF assms None, of h] show ?thesis by simp
next
  case (Some best)
  with frameCallback_hit [OF assms Some, of h] show ?thesis
    by (simp add: featureText_def)
qed


lemma removeAbsent_pointer:
  "mmPending (removeAbsent D n s) = mmPending s"
  "mmLast (removeAbsent D n s) = mmLast s"
  by (simp_all add: removeAbsent_def detach_def Let_def split: option.splits)

lemma removalPass_pointer:
  "mmPending (removalPass D s) = mmPending s"
  "mmLast (removalPass D s) = mmLast s"
proof -
  have "mmPending (fold (removeAbsent D) ns s) = mmPending s
      \<and> mmLast (fold (removeAbsent D) ns s) = mmLast s" for ns
    by (induction ns arbitrary: s) (simp_all add: removeAbsent_pointer)
  then show "mmPending (removalPass D s) = mmPending s" "mmLast (removalPass D s) = mmLast s"
    by (simp_all add: removalPass_def)
qed

lemma upsert_pointer:
  "mmPending (fst (upsert h ne sc)) = mmPending (fst sc)"
  "mmLast (fst (upsert h ne sc)) = mmLast (fst sc)"
  by (cases ne; cases sc; simp add: upsert_def detach_def Let_def split: option.splits)+

lemma fold_upsert_pointer:
  "mmPending (fst (fold (upsert h) des sc)) = mmPending (fst sc)"
  "mmLast (fst (fold (upsert h) des sc)) = mmLast (fst sc)"
  by (induction des arbitrary: sc; simp add: upsert_pointer)+

lemma pending_inv_reachable:
  assumes "reachable h s"
  shows "pending_inv s"
  using assms
proof (induction rule: reachable.induct)
  case (reach_render proj)
  show ?case by (simp add: pending_inv_def render_def)
next
  case (reach_sync s d)
  then show ?case by (simp add: pending_inv_def syncGeojson_eq rebuildHoverIndex_def
        upsertPass_def fold_upsert_pointer removalPass_pointer)
next
  case (reach_toggle s i d)
  then show ?case by (simp add: pending_inv_def overlayToggled_def syncGeojson_eq
        rebuildHoverIndex_def upsertPass_def fold_upsert_pointer removalPass_pointer)
next
  case (reach_viewport s proj)
  then show ?case by (simp add: pending_inv_def viewportChanged_def rebuildHoverIndex_def)
next
  case (reach_move s d ev)
  then show ?case by (simp add: pending_inv_def onMouseMove_def Let_def)
next
  case (reach_frame s)
  then show ?case by (simp add: pending_inv_def frameCallback_def Let_def split: option.splits)
next
  case (reach_out s)
  then show ?case by (simp add: pending_inv_def onMouseOut_def)
next
  case (reach_show s d)
  then show ?case by (simp add: pending_inv_def showHover_def)
qed

text \<open>
  Claim C8. Whenever the program has a frame callback scheduled, there are a remembered
  event \<open>e\<close> and an index \<open>idx\<close>, and the callback (a processed pointer-move event) ends
  without an exception. On a hit the marker is at the position of the
  candidate, its tooltip is the label of the candidate's feature (the \<open>name\<close> property when
  it is truthy, else all properties as \<open>key: value\<close> joined by a comma and a space, else,
  without feature or properties, the empty string), the marker is on the map with its
  tooltip open, and one \<open>hover_layer\<close> event with the feature has been dispatched. On a miss
  the marker is off the map, its tooltip closed, and no event has been dispatched.
\<close>

theorem frame_hit_and_miss:
  assumes "reachable h s" and "mmPending s"
  shows "\<exists>e idx. mmLast s = Some e \<and> hoverIndex s = Some idx \<and>
     fst (frameCallback h s) = None
       \<and> (case queryNearest idx (projection s e) of
             Some best \<Rightarrow>
               hoverLatLng (snd (frameCallback h s)) = cand_latlng best
               \<and> hoverTooltip (snd (frameCallback h s)) =
                   (case cand_feature best of
                      None \<Rightarrow> Text []
                    | Some ft \<Rightarrow>
                        (case properties ft of
                           None \<Rightarrow> Text []
                         | Some props \<Rightarrow>
                             (case map_of props ''name'' of
                                Some n \<Rightarrow>
                                  if ToBoolean h n then Raw n
                                  else Text (join '', '' (map (\<lambda>(k, v). k @ '': '' @ ToString h v) props))
                              | None \<Rightarrow>
                                  Text (join '', '' (map (\<lambda>(k, v). k @ '': '' @ ToString h v) props)))))
               \<and> hoverOnMap (snd (frameCallback h s))
               \<and> hoverTooltipOpen (snd (frameCallback h s))
               \<and> dispatched (snd (frameCallback h s)) = dispatched s @ [cand_feature best]
           | None \<Rightarrow>
               \<not> hoverOnMap (snd (frameCallback h s))
               \<and> \<not> hoverTooltipOpen (snd (frameCallback h s))
               \<and> dispatched (snd (frameCallback h s)) = dispatched s)"
proof -
  from pending_inv_reachable [OF assms(1)] assms(2)
  obtain e idx where e: "mmLast s = Some e" and idx: "hoverIndex s = Some idx"
    by (auto simp: pending_inv_def)
  from frame_outcome [OF e idx, of h] e idx show ?thesis by blast
qed

text \<open>
  Claim C10. Hover notifications are not deduplicated: when a processed event hits a
  candidate and the next pointer move, at the same place or at another one that hits the
  same candidate, is processed in its turn, the same feature is dispatched a second time
  and the marker is set to the candidate's position again.
\<close>

theorem hover_not_deduplicated:
  assumes "mmLast s = Some e1" and "hoverIndex s = Some idx"
    and "queryNearest idx (projection s e1) = Some best"
    and "queryNearest idx (projection s e2) = Some best"
    and "show_hover d"
  shows "dispatched (snd (frameCallback h s)) = dispatched s @ [cand_feature best]
     \<and> hoverLatLng (snd (frameCallback h s)) = cand_latlng best
     \<and> mmPending (onMouseMove d e2 (snd (frameCallback h s)))
     \<and> dispatched (snd (frameCallback h (onMouseMove d e2 (snd (frameCallback h s))))) =
         dispatched s @ [cand_feature best, cand_feature best]
     \<and> hoverLatLng (snd (frameCallback h (onMouseMove d e2 (snd (frameCallback h s))))) =
         cand_latlng best"
proof -
  let ?s1 = "snd (frameCallback h s)"
  let ?s2 = "onMouseMove d e2 ?s1"
  have s1: "frameCallback h s =
     (None,
      s\<lparr> mmPending := False,
         hoverLatLng := cand_latlng best,
         hoverTooltip := featureText h (cand_feature best),
         hoverOnMap := True,
         hoverTooltipOpen := True,
         dispatched := dispatched s @ [cand_feature best] \<rparr>)"
    using assms(1-3) by (rule frameCallback_hit)
  have s2: "mmLast ?s2 = Some e2" "hoverIndex ?s2 = Some idx" "projection ?s2 = projection s"
    "mmPending ?s2" "dispatched ?s2 = dispatched s @ [cand_feature best]"
    using assms by (simp_all add: s1 onMouseMove_def Let_def)
  from assms(4) have q: "queryNearest idx (projection ?s2 e2) = Some best"
    by (simp only: s2(3))
  from frameCallback_hit [OF s2(1,2) q, of h] s2(4,5) s1
  show ?thesis by simp
qed

section \<open>The scenario, evaluated\<close>

lemmas scenario_eval =
  scenario_state_def syncGeojson_def desiredOf_def staticDict_def hoverDict_def scenario_data_def
  removalPass_def render_def upsertPass_def upsert_def needsCreate_def scenario_host_def
  removeAbsent_def detach_def rebuildHoverIndex_def indexLayer_def indexSublayer_def
  scenario_proj_def cell_eval

lemma scenario_tables:
  "geojsonLayers scenario_state =
     [(''B'', Layer 0 [Sublayer (Some (5, 5)) (Some scenario_feature)]),
      (''C'', Layer 1 [Sublayer None (Some (Feature None ''LineString''))]),
      (''A'', Layer 2
         [Sublayer (Some (0, 0)) (Some scenario_feature),
          Sublayer None (Some (Feature None ''LineString'')),
          Sublayer (Some (90, 0)) (Some scenario_feature),
          Sublayer (Some (0, 1)) (Some scenario_feature)])]"
  "geojsonData scenario_state = [(''B'', ''[5,5]''), (''C'', ''L''), (''A'', ''[0,0]L[90,0][0,1]'')]"
  "geojsonHoverable scenario_state = [(''B'', False), (''C'', True), (''A'', True)]"
  "nextId scenario_state = 3"
  "rebuilds scenario_state = 1"
  "projection scenario_state = scenario_proj"
  "dispatched scenario_state = []"
  by (simp_all add: scenario_eval)

lemma scenario_mapLayers: "mapLayers scenario_state = {0, 1, 2}"
  by (auto simp: scenario_eval)

lemma scenario_index:
  "hoverIndex scenario_state =
     Some [(''0:0'', [Candidate 0 0 (0, 0) (Some scenario_feature)]),
           (''4:0'', [Candidate 100 0 (0, 1) (Some scenario_feature)])]"
  by (simp add: scenario_eval)

lemma scenario_reachable: "reachable scenario_host scenario_state"
  unfolding scenario_state_def by (rule reach_sync) (rule reach_render)

lemma scenario_query_hit:
  "queryNearest
     [(''0:0'', [Candidate 0 0 (0, 0) (Some scenario_feature)]),
      (''4:0'', [Candidate 100 0 (0, 1) (Some scenario_feature)])]
     (Fin 4, Fin 3) = Some (Candidate 0 0 (0, 0) (Some scenario_feature))"
  by (simp add: queryNearest_def scanCell_def closer_def cell_eval pixelDistance_le_iff)

lemma scenario_query_miss:
  "queryNearest
     [(''0:0'', [Candidate 0 0 (0, 0) (Some scenario_feature)]),
      (''4:0'', [Candidate 100 0 (0, 1) (Some scenario_feature)])]
     (Fin 1000, Fin 1000) = None"
  by (simp add: queryNearest_def scanCell_def closer_def cell_eval)

text \<open>
  After the first pass the index holds the two finite points of \<open>A\<close>. A pointer at pixel
  (4, 3) hits the one at (0, 0), five pixels away and nearer than the other; a pointer at
  (1000, 1000) misses.
\<close>

theorem queryNearest_correct_witness:
  "reachable scenario_host scenario_state
   \<and> queryNearest (the (hoverIndex scenario_state)) (Fin 4, Fin 3) =
       Some (Candidate 0 0 (0, 0) (Some scenario_feature))
   \<and> Candidate 0 0 (0, 0) (Some scenario_feature) \<in> set (candidates (the (hoverIndex scenario_state)))
   \<and> pixelDistance (4, 3) (Candidate 0 0 (0, 0) (Some scenario_feature)) \<le> hoverThresholdPx
   \<and> pixelDistance (4, 3) (Candidate 0 0 (0, 0) (Some scenario_feature))
       \<le> pixelDistance (4, 3) (Candidate 100 0 (0, 1) (Some scenario_feature))
   \<and> queryNearest (the (hoverIndex scenario_state)) (Fin 1000, Fin 1000) = None
   \<and> hoverThresholdPx < pixelDistance (1000, 1000) (Candidate 0 0 (0, 0) (Some scenario_feature))"
  using queryNearest_correct [OF scenario_reachable scenario_index, of 4 3]
    queryNearest_correct [OF scenario_reachable scenario_index, of 1000 1000]
    scenario_reachable
  by (simp add: scenario_index scenario_query_hit scenario_query_miss candidates_def)



text \<open>
  After the first pass the names are \<open>A\<close>, \<open>B\<close> and \<open>C\<close>; after a pass on the snapshot that has
  only \<open>A\<close>, the three tables have the one name \<open>A\<close>, and nothing is left of \<open>B\<close>.
\<close>

theorem tables_match_snapshot_witness:
  "reachable scenario_host scenario_state
   \<and> fst ` set (geojsonLayers scenario_state) = {''B'', ''C'', ''A''}
   \<and> fst ` set (geojsonLayers (syncGeojson scenario_host scenario_data2 scenario_state)) = {''A''}
   \<and> fst ` set (geojsonData (syncGeojson scenario_host scenario_data2 scenario_state)) = {''A''}
   \<and> fst ` set (geojsonHoverable (syncGeojson scenario_host scenario_data2 scenario_state)) = {''A''}
   \<and> map_of (geojsonData scenario_state) ''B'' = Some ''[5,5]''
   \<and> map_of (geojsonLayers (syncGeojson scenario_host scenario_data2 scenario_state)) ''B'' = None
   \<and> map_of (geojsonData (syncGeojson scenario_host scenario_data2 scenario_state)) ''B'' = None
   \<and> map_of (geojsonHoverable (syncGeojson scenario_host scenario_data2 scenario_state)) ''B'' = None"
  using tables_match_snapshot [OF scenario_reachable, of scenario_data2] scenario_reachable
  by (simp add: scenario_tables staticDict_def hoverDict_def scenario_data2_def)

text \<open>
  \<open>A\<close> resubmitted unchanged keeps its drawable. \<open>B\<close> resubmitted with the same content in the
  hover group (its flag was false) gets another one.
\<close>

theorem recreate_iff_changed_witness:
  "reachable scenario_host scenario_state
   \<and> (''A'', \<lparr> geojson = [Some (0, 0), None, Some (90, 0), Some (0, 1)], hoverable = True \<rparr>)
       \<in> set (desiredOf scenario_data2)
   \<and> map_of (geojsonLayers (syncGeojson scenario_host scenario_data2 scenario_state)) ''A'' =
       map_of (geojsonLayers scenario_state) ''A''
   \<and> (''B'', \<lparr> geojson = [Some (5, 5)], hoverable = True \<rparr>)
       \<in> set (desiredOf (scenario_data2\<lparr> geojson_hover_overlays := Some [(''B'', [Some (5, 5)])] \<rparr>))
   \<and> map_of (geojsonLayers
         (syncGeojson scenario_host (scenario_data2\<lparr> geojson_hover_overlays := Some [(''B'', [Some (5, 5)])] \<rparr>)
            scenario_state)) ''B'' \<noteq>
       map_of (geojsonLayers scenario_state) ''B''"
proof -
  let ?eA = "\<lparr> geojson = [Some (0, 0), None, Some (90, 0), Some (0, 1)], hoverable = True \<rparr>"
  let ?eB = "\<lparr> geojson = [Some (5, 5)], hoverable = True \<rparr>"
  let ?d3 = "scenario_data2\<lparr> geojson_hover_overlays := Some [(''B'', [Some (5, 5)])] \<rparr>"
  have a: "(''A'', ?eA) \<in> set (desiredOf scenario_data2)"
    by (simp add: desiredOf_def staticDict_def hoverDict_def scenario_data2_def)
  have b: "(''B'', ?eB) \<in> set (desiredOf ?d3)"
    by (simp add: desiredOf_def staticDict_def hoverDict_def scenario_data2_def)
  have same: "\<not> (''A'' \<notin> fst ` set (geojsonLayers scenario_state)
       \<or> map_of (geojsonData scenario_state) ''A'' \<noteq> Some (JSON_stringify scenario_host (geojson ?eA))
       \<or> map_of (geojsonHoverable scenario_state) ''A'' \<noteq> Some (hoverable ?eA))"
    by (simp add: scenario_tables scenario_host_def show_int_def show_nat.simps digit_def)
  have other: "''B'' \<notin> fst ` set (geojsonLayers scenario_state)
       \<or> map_of (geojsonData scenario_state) ''B'' \<noteq> Some (JSON_stringify scenario_host (geojson ?eB))
       \<or> map_of (geojsonHoverable scenario_state) ''B'' \<noteq> Some (hoverable ?eB)"
    by (simp add: scenario_tables)
  from recreate_iff_changed [OF scenario_reachable a, THEN conjunct1] same
  have keepA: "map_of (geojsonLayers (syncGeojson scenario_host scenario_data2 scenario_state)) ''A'' =
       map_of (geojsonLayers scenario_state) ''A''"
    by blast
  from recreate_iff_changed [OF scenario_reachable b, THEN conjunct1] other
  have newB: "map_of (geojsonLayers (syncGeojson scenario_host ?d3 scenario_state)) ''B'' \<noteq>
       map_of (geojsonLayers scenario_state) ''B''"
    by blast
  from scenario_reachable a keepA b newB show ?thesis by blast
qed

text \<open>\<open>C\<close> is in both groups: its merged entry and its stored flag are hover-eligible.\<close>

theorem hover_wins_witness:
  "''C'' \<in> fst ` set (staticDict scenario_data)
   \<and> ''C'' \<in> fst ` set (hoverDict scenario_data)
   \<and> map_of (desiredOf scenario_data) ''C'' = Some \<lparr> geojson = [None], hoverable = True \<rparr>
   \<and> map_of (geojsonHoverable scenario_state) ''C'' = Some True"
proof -
  have s: "''C'' \<in> fst ` set (staticDict scenario_data)"
    and h: "''C'' \<in> fst ` set (hoverDict scenario_data)"
    by (simp_all add: staticDict_def hoverDict_def scenario_data_def)
  have m: "map_of (desiredOf scenario_data) ''C'' = Some \<lparr> geojson = [None], hoverable = True \<rparr>"
    by (simp add: desiredOf_def staticDict_def hoverDict_def scenario_data_def)
  have f: "map_of (geojsonHoverable scenario_state) ''C'' = Some True"
    unfolding scenario_state_def
    using hover_wins [OF s h, of scenario_host "render scenario_proj"] by (rule conjunct2)
  from s h m f show ?thesis by blast
qed

text \<open>
  \<open>C\<close> has a point in the static group and a line in the hover group: the fingerprint is
  that of the line, and another static content under \<open>C\<close> gives the same state.
\<close>

theorem hover_content_wins_witness:
  "''C'' \<in> fst ` set (staticDict scenario_data)
   \<and> distinct (map fst (hoverDict scenario_data))
   \<and> map_of (hoverDict scenario_data) ''C'' = Some [None]
   \<and> map_of (geojsonData scenario_state) ''C'' = Some ''L''
   \<and> syncGeojson scenario_host
        (scenario_data\<lparr> geojson_overlays := Some [(''B'', [Some (5, 5)]), (''C'', [Some (1, 1), None])] \<rparr>)
        (render scenario_proj) = scenario_state"
proof -
  have s: "''C'' \<in> fst ` set (staticDict scenario_data)"
    and d: "distinct (map fst (hoverDict scenario_data))"
    and v: "map_of (hoverDict scenario_data) ''C'' = Some [None]"
    by (simp_all add: staticDict_def hoverDict_def scenario_data_def)
  have r: "map (\<lambda>(k, x). (k, if k = ''C'' then [Some (1, 1), None] else x)) (staticDict scenario_data) =
      [(''B'', [Some (5, 5)]), (''C'', [Some (1, 1), None])]"
    by (simp add: staticDict_def scenario_data_def)
  note w = hover_content_wins [OF s d v, of scenario_host "render scenario_proj" "[Some (1, 1), None]"]
  have js: "JSON_stringify scenario_host [None] = ''L''"
    by (simp add: scenario_host_def)
  have fp: "map_of (geojsonData scenario_state) ''C'' = Some ''L''"
    using w [THEN conjunct2, THEN conjunct1] unfolding js scenario_state_def .
  have eq: "syncGeojson scenario_host
        (scenario_data\<lparr> geojson_overlays := Some [(''B'', [Some (5, 5)]), (''C'', [Some (1, 1), None])] \<rparr>)
        (render scenario_proj) = scenario_state"
    using w [THEN conjunct2, THEN conjunct2] unfolding r scenario_state_def .
  from s d v fp eq show ?thesis by blast
qed

text \<open>
  A rebuild in the scenario indexes the two finite points of \<open>A\<close>, on either side of the line
  and of the point at the pole, which it leaves out, as it does the point of the static \<open>B\<close>.
\<close>

theorem rebuild_indexes_exactly_witness:
  "\<exists>idx. hoverIndex (rebuildHoverIndex scenario_state) = Some idx
     \<and> Candidate 0 0 (0, 0) (Some scenario_feature) \<in> set (candidates idx)
     \<and> Candidate 100 0 (0, 1) (Some scenario_feature) \<in> set (candidates idx)
     \<and> Candidate 500 500 (5, 5) (Some scenario_feature) \<notin> set (candidates idx)
     \<and> (\<forall>c\<in>set (candidates idx). cand_latlng c \<noteq> (90, 0))"
proof -
  from rebuild_indexes_exactly [of scenario_state] obtain idx where
    idx: "hoverIndex (rebuildHoverIndex scenario_state) = Some idx"
    and mem: "\<And>c. c \<in> set (candidates idx) \<longleftrightarrow>
        (\<exists>nm lyr.
           (nm, lyr) \<in> set (geojsonLayers scenario_state)
           \<and> map_of (geojsonHoverable scenario_state) nm = Some True
           \<and> lid lyr \<in> mapLayers scenario_state
           \<and> (\<exists>sub ll px py.
                sub \<in> set (sublayers lyr)
                \<and> getLatLng sub = Some ll
                \<and> projection scenario_state ll = (Fin px, Fin py)
                \<and> c = Candidate px py ll (feature sub)))"
    by blast
  have c0: "Candidate 0 0 (0, 0) (Some scenario_feature) \<in> set (candidates idx)"
    unfolding mem by (force simp: scenario_tables scenario_mapLayers scenario_proj_def)
  have c1: "Candidate 100 0 (0, 1) (Some scenario_feature) \<in> set (candidates idx)"
    unfolding mem by (force simp: scenario_tables scenario_mapLayers scenario_proj_def)
  have c2: "Candidate 500 500 (5, 5) (Some scenario_feature) \<notin> set (candidates idx)"
    unfolding mem by (auto simp: scenario_tables scenario_mapLayers scenario_proj_def)
  have c3: "\<forall>c\<in>set (candidates idx). cand_latlng c \<noteq> (90, 0)"
  proof
    fix c
    assume "c \<in> set (candidates idx)"
    then have "\<exists>nm lyr.
           (nm, lyr) \<in> set (geojsonLayers scenario_state)
           \<and> map_of (geojsonHoverable scenario_state) nm = Some True
           \<and> lid lyr \<in> mapLayers scenario_state
           \<and> (\<exists>sub ll px py.
                sub \<in> set (sublayers lyr)
                \<and> getLatLng sub = Some ll
                \<and> projection scenario_state ll = (Fin px, Fin py)
                \<and> c = Candidate px py ll (feature sub))"
      unfolding mem .
    then show "cand_latlng c \<noteq> (90, 0)"
      by (auto simp: scenario_tables scenario_mapLayers scenario_proj_def)
  qed
  from idx c0 c1 c2 c3 show ?thesis by blast
qed

lemma scenario_pending: "\<not> mmPending scenario_state"
  by (simp add: scenario_eval)

lemma scenario_near_fields:
  "mmLast scenario_near = Some (3 / 100, 1 / 25)"
  "hoverIndex scenario_near = hoverIndex scenario_state"
  "projection scenario_near (3 / 100, 1 / 25) = (Fin 4, Fin 3)"
  "dispatched scenario_near = []"
  by (simp_all add: scenario_near_def onMouseMove_def Let_def scenario_index scenario_tables
        scenario_data_def scenario_proj_def)

lemma scenario_far_fields:
  "mmLast scenario_far = Some (10, 10)"
  "hoverIndex scenario_far = hoverIndex scenario_state"
  "projection scenario_far (10, 10) = (Fin 1000, Fin 1000)"
  "dispatched scenario_far = []"
  by (simp_all add: scenario_far_def onMouseMove_def Let_def scenario_index scenario_tables
        scenario_data_def scenario_proj_def)

lemma scenario_truthy: "ToBoolean scenario_host ''pt''"
  by (simp add: scenario_host_def)

lemma scenario_properties:
  "properties scenario_feature = Some [(''name'', ''pt''), (''kind'', ''well'')]"
  by (simp add: scenario_feature_def)

text \<open>
  The pointer near the first point of \<open>A\<close>: the marker goes to that point, labelled with its
  name, and the feature is dispatched. The pointer far away: the marker is off the map and
  nothing is dispatched.
\<close>

theorem frame_hit_and_miss_witness:
  "reachable scenario_host scenario_near \<and> mmPending scenario_near
   \<and> hoverLatLng (snd (frameCallback scenario_host scenario_near)) = (0, 0)
   \<and> hoverTooltip (snd (frameCallback scenario_host scenario_near)) = Raw ''pt''
   \<and> hoverOnMap (snd (frameCallback scenario_host scenario_near))
   \<and> dispatched (snd (frameCallback scenario_host scenario_near)) = [Some scenario_feature]
   \<and> reachable scenario_host scenario_far \<and> mmPending scenario_far
   \<and> \<not> hoverOnMap (snd (frameCallback scenario_host scenario_far))
   \<and> dispatched (snd (frameCallback scenario_host scenario_far)) = []"
proof -
  have rn: "reachable scenario_host scenario_near"
    unfolding scenario_near_def using scenario_reachable by (rule reach_move)
  have rf: "reachable scenario_host scenario_far"
    unfolding scenario_far_def using scenario_reachable by (rule reach_move)
  have pn: "mmPending scenario_near" and pf: "mmPending scenario_far"
    by (simp_all add: scenario_near_def scenario_far_def onMouseMove_def Let_def scenario_index
          scenario_data_def scenario_pending)
  from frame_hit_and_miss [OF rn pn]
  have near: "hoverLatLng (snd (frameCallback scenario_host scenario_near)) = (0, 0)
      \<and> hoverTooltip (snd (frameCallback scenario_host scenario_near)) = Raw ''pt''
      \<and> hoverOnMap (snd (frameCallback scenario_host scenario_near))
      \<and> dispatched (snd (frameCallback scenario_host scenario_near)) = [Some scenario_feature]"
    by (simp add: scenario_near_fields scenario_index scenario_query_hit scenario_properties
          scenario_truthy)
  from frame_hit_and_miss [OF rf pf]
  have far: "\<not> hoverOnMap (snd (frameCallback scenario_host scenario_far))
      \<and> dispatched (snd (frameCallback scenario_host scenario_far)) = []"
    by (simp add: scenario_far_fields scenario_index scenario_query_miss)
  from rn pn near rf pf far show ?thesis by blast
qed

text \<open>
  The pointer near the first point of \<open>A\<close>, then at another place as near: the feature is
  dispatched twice.
\<close>

theorem hover_not_deduplicated_witness:
  "mmLast scenario_near = Some (3 / 100, 1 / 25)
   \<and> show_hover scenario_data
   \<and> dispatched scenario_near = []
   \<and> dispatched (snd (frameCallback scenario_host scenario_near)) = [Some scenario_feature]
   \<and> dispatched (snd (frameCallback scenario_host
         (onMouseMove scenario_data (1 / 25, 3 / 100) (snd (frameCallback scenario_host scenario_near))))) =
       [Some scenario_feature, Some scenario_feature]"
proof -
  have q1: "queryNearest
     [(''0:0'', [Candidate 0 0 (0, 0) (Some scenario_feature)]),
      (''4:0'', [Candidate 100 0 (0, 1) (Some scenario_feature)])]
     (projection scenario_near (3 / 100, 1 / 25)) = Some (Candidate 0 0 (0, 0) (Some scenario_feature))"
    unfolding scenario_near_fields(3) by (rule scenario_query_hit)
  have p2: "projection scenario_near (1 / 25, 3 / 100) = (Fin 3, Fin 4)"
    by (simp add: scenario_near_def onMouseMove_def Let_def scenario_tables scenario_proj_def)
  have q2: "queryNearest
     [(''0:0'', [Candidate 0 0 (0, 0) (Some scenario_feature)]),
      (''4:0'', [Candidate 100 0 (0, 1) (Some scenario_feature)])]
     (projection scenario_near (1 / 25, 3 / 100)) = Some (Candidate 0 0 (0, 0) (Some scenario_feature))"
    unfolding p2
    by (simp add: queryNearest_def scanCell_def closer_def cell_eval pixelDistance_le_iff)
  have sh: "show_hover scenario_data" by (simp add: scenario_data_def)
  from hover_not_deduplicated [OF scenario_near_fields(1)
      scenario_near_fields(2) [unfolded scenario_index] q1 q2 sh, of scenario_host]
    sh
  show ?thesis by (simp add: scenario_near_fields)
qed

end
